theory Spec2Isabelle
  imports Main "HOL-Library.Word"
begin

section \<open>gh-user-status: a shallow embedding of main.go\<close>

text \<open>
  The program builds GraphQL queries and mutations, hands them to the external \<open>gh\<close>
  binary, decodes the JSON it prints and reports the outcome. The embedding follows
  main.go function by function. Everything outside the process (the \<open>gh\<close> binary, the
  terminal prompt, the clock, the emoji table) is an explicit environment, and every call
  that leaves the process is recorded in a trace, so that "how often was \<open>gh\<close> called, and
  with what" is a statement about a list.
\<close>

subsection \<open>Go strings\<close>

text \<open>
  A Go string is a sequence of bytes; so is \<^typ>\<open>string\<close>. The double quote, the newline
  and the tab of the raw string literals are written by code.
\<close>

definition dq :: string where
  "dq = [CHR 0x22]"

definition nl :: string where
  "nl = [CHR 0x0A]"

definition tab :: string where
  "tab = [CHR 0x09]"

text \<open>\<open>strings.Contains(s, substr)\<close>: \<open>substr\<close> occurs in \<open>s\<close> as a contiguous block.\<close>

definition hasPrefix :: "string \<Rightarrow> string \<Rightarrow> bool" where
  "hasPrefix s p = (take (length p) s = p)"

primrec strings_Contains :: "string \<Rightarrow> string \<Rightarrow> bool" where
  "strings_Contains [] sub = (sub = [])"
| "strings_Contains (c # cs) sub = (hasPrefix (c # cs) sub \<or> strings_Contains cs sub)"

text \<open>
  \<open>strings.Split(s, sep)\<close> for a separator of one byte, the only way the program calls it
  (\<open>strings.Split(opts.Login, "/")\<close>). The result is never empty: a string without the
  separator comes back as the single piece.
\<close>

primrec splitByte :: "char \<Rightarrow> string \<Rightarrow> string list" where
  "splitByte sep [] = [[]]"
| "splitByte sep (c # cs) =
     (if c = sep then [] # splitByte sep cs
      else (case splitByte sep cs of
              [] \<Rightarrow> [[c]]
            | p # ps \<Rightarrow> (c # p) # ps))"

definition strings_Split :: "string \<Rightarrow> string \<Rightarrow> string list" where
  "strings_Split s sep = (case sep of [c] \<Rightarrow> splitByte c s | _ \<Rightarrow> [s])"

subsection \<open>Errors\<close>

text \<open>
  Go errors are values carrying a message. One constructor per place where main.go makes
  an error:
  \<^item> \<open>ToolNotFound e\<close>: "could not find gh. Is it installed? error: e" (\<open>gh\<close>, \<open>ghWithInput\<close>);
  \<^item> \<open>ToolExecutionFailed e stderr\<close>: "failed to run gh. error: e, stderr: stderr" (\<open>gh\<close>);
  \<^item> \<open>ToolExecutionFailedInteractive e\<close>: "failed to run gh. error: e" (\<open>ghWithInput\<close>);
  \<^item> \<open>PromptFailed e\<close>: "could not prompt: e" (\<open>runSet\<close>);
  \<^item> \<open>DecodeError (Some e)\<close>: "failed to deserialize JSON: e", wrapping the error of
    \<open>json.Unmarshal\<close>; \<open>DecodeError None\<close>: the bare "failed to deserialize JSON" of
    \<open>apiStatus\<close>;
  \<^item> \<open>VerificationFailed\<close>: "failed to set status. Perhaps try another emoji" (\<open>runSet\<close>);
  \<^item> \<open>IndexOutOfRange\<close>: the run-time panic of \<open>arr[1]\<close> in \<open>runGetTeam\<close>.
\<close>

datatype json_error = SyntaxError | UnmarshalTypeError

datatype error =
    ToolNotFound string
  | ToolExecutionFailed string string
  | ToolExecutionFailedInteractive string
  | PromptFailed string
  | DecodeError "json_error option"
  | VerificationFailed
  | IndexOutOfRange

subsection \<open>JSON documents and \<open>json.Unmarshal\<close>\<close>

text \<open>
  The bytes \<open>gh\<close> prints are read by \<open>json.Unmarshal\<close> of Go's standard library, which
  first checks that they are one well-formed JSON text and fails with a syntax error
  otherwise. A \<open>body\<close> is what that check sees: \<open>Malformed\<close> (also a text nested
  deeper than the decoder allows), or the document. An object
  keeps its members in the order of the text, duplicates included, because the decoder
  works through them in that order.
\<close>

datatype json =
    JNull
  | JBool bool
  | JNumber string
  | JString string
  | JArray "json list"
  | JObject "(string \<times> json) list"

datatype body = Malformed | Doc json

record status =
  IndicatesLimitedAvailability :: bool
  Message :: string
  Emoji :: string

record user =
  Login :: string

record memberStatus = status +
  User :: user

definition zero_status :: status where
  "zero_status = \<lparr>IndicatesLimitedAvailability = False, Message = [], Emoji = []\<rparr>"

definition zero_memberStatus :: memberStatus where
  "zero_memberStatus =
     \<lparr>IndicatesLimitedAvailability = False, Message = [], Emoji = [],
      User = \<lparr>Login = []\<rparr>\<rparr>"

text \<open>
  A key of the document selects the struct field of that name: an exact match, or a match
  up to case. The fold is the one of encoding/json: ASCII letters fold to upper case, and
  the two non-ASCII runes whose simple case folding is an ASCII letter do too (the Kelvin
  sign E2 84 AA to K, the long s C5 BF to S). The field names of the program are ASCII,
  so no other rune can make a key match.
\<close>

definition upperByte :: "char \<Rightarrow> char" where
  "upperByte c =
     (let n = (of_char c :: nat) in if 97 \<le> n \<and> n \<le> 122 then char_of (n - 32) else c)"

function foldName :: "string \<Rightarrow> string" where
  "foldName s =
     (case s of
        [] \<Rightarrow> []
      | c # cs \<Rightarrow>
          if take 3 s = [CHR 0xE2, CHR 0x84, CHR 0xAA] then CHR ''K'' # foldName (drop 3 s)
          else if take 2 s = [CHR 0xC5, CHR 0xBF] then CHR ''S'' # foldName (drop 2 s)
          else upperByte c # foldName cs)"
  by pat_completeness auto
termination
  by (relation "measure length") auto

declare foldName.simps [simp del]

definition fieldMatch :: "string \<Rightarrow> string \<Rightarrow> bool" where
  "fieldMatch key name = (key = name \<or> foldName key = foldName name)"

text \<open>
  Decoding a value into a Go variable that already holds \<open>cur\<close>. JSON null leaves a
  string, a bool or a struct as it is and makes a map or a slice nil; a value of the
  wrong kind is an \<open>UnmarshalTypeError\<close>. The decoder carries on after a type error and
  returns the first one at the end; every caller in main.go drops the decoded value when
  the error is not nil, so the model stops at the first.
\<close>

definition dec_string :: "string \<Rightarrow> json \<Rightarrow> json_error + string" where
  "dec_string cur j =
     (case j of JNull \<Rightarrow> Inr cur | JString s \<Rightarrow> Inr s | _ \<Rightarrow> Inl UnmarshalTypeError)"

definition dec_bool :: "bool \<Rightarrow> json \<Rightarrow> json_error + bool" where
  "dec_bool cur j =
     (case j of JNull \<Rightarrow> Inr cur | JBool b \<Rightarrow> Inr b | _ \<Rightarrow> Inl UnmarshalTypeError)"

text \<open>
  The members of an object, one after the other, each decoded into the value the
  earlier ones left.
\<close>

primrec dec_members ::
  "('a \<Rightarrow> string \<times> json \<Rightarrow> json_error + 'a) \<Rightarrow> 'a \<Rightarrow> (string \<times> json) list \<Rightarrow> json_error + 'a"
where
  "dec_members f cur [] = Inr cur"
| "dec_members f cur (kv # kvs) =
     (case f cur kv of Inl e \<Rightarrow> Inl e | Inr cur' \<Rightarrow> dec_members f cur' kvs)"

definition dec_struct ::
  "('a \<Rightarrow> string \<times> json \<Rightarrow> json_error + 'a) \<Rightarrow> 'a \<Rightarrow> json \<Rightarrow> json_error + 'a"
where
  "dec_struct f cur j =
     (case j of
        JNull \<Rightarrow> Inr cur
      | JObject kvs \<Rightarrow> dec_members f cur kvs
      | _ \<Rightarrow> Inl UnmarshalTypeError)"

text \<open>The fields of \<open>status\<close>; a key that names no field is skipped.\<close>

definition status_member ::
  "'a status_scheme \<Rightarrow> string \<times> json \<Rightarrow> json_error + 'a status_scheme"
where
  "status_member st kv =
     (case kv of (k, v) \<Rightarrow>
        if fieldMatch k ''IndicatesLimitedAvailability'' then
          (case dec_bool (IndicatesLimitedAvailability st) v of
             Inl e \<Rightarrow> Inl e
           | Inr b \<Rightarrow> Inr (st\<lparr>IndicatesLimitedAvailability := b\<rparr>))
        else if fieldMatch k ''Message'' then
          (case dec_string (Message st) v of
             Inl e \<Rightarrow> Inl e
           | Inr s \<Rightarrow> Inr (st\<lparr>Message := s\<rparr>))
        else if fieldMatch k ''Emoji'' then
          (case dec_string (Emoji st) v of
             Inl e \<Rightarrow> Inl e
           | Inr s \<Rightarrow> Inr (st\<lparr>Emoji := s\<rparr>))
        else Inr st)"

definition dec_status :: "status \<Rightarrow> json \<Rightarrow> json_error + status" where
  "dec_status = dec_struct status_member"

text \<open>
  A map with string keys: every member is decoded into a fresh zero element and stored
  under its key, exactly as written, so a later duplicate replaces an earlier one. The
  element is stored also when the member is null.
\<close>

definition map_member ::
  "('v \<Rightarrow> json \<Rightarrow> json_error + 'v) \<Rightarrow> 'v \<Rightarrow> (string \<rightharpoonup> 'v) \<Rightarrow> string \<times> json
     \<Rightarrow> json_error + (string \<rightharpoonup> 'v)"
where
  "map_member dec_elem zero m kv =
     (case kv of (k, v) \<Rightarrow>
        (case dec_elem zero v of Inl e \<Rightarrow> Inl e | Inr x \<Rightarrow> Inr (m(k \<mapsto> x))))"

definition dec_map ::
  "('v \<Rightarrow> json \<Rightarrow> json_error + 'v) \<Rightarrow> 'v \<Rightarrow> (string \<rightharpoonup> 'v) \<Rightarrow> json
     \<Rightarrow> json_error + (string \<rightharpoonup> 'v)"
where
  "dec_map dec_elem zero cur j =
     (case j of
        JNull \<Rightarrow> Inr Map.empty
      | JObject kvs \<Rightarrow> dec_members (map_member dec_elem zero) cur kvs
      | _ \<Rightarrow> Inl UnmarshalTypeError)"

text \<open>
  A slice is modelled by its elements together with what its backing array still holds
  behind them (elements of an earlier, longer decoding). The elements of an array are
  decoded one by one, the one at index \<open>i\<close> into what the backing array holds there, or
  into a zero element where it holds nothing; the slice then ends after the last one and
  the rest of the backing array stays behind it. Null makes the slice nil and an empty
  array makes it a fresh empty slice: both drop the backing array.
\<close>

type_synonym 'v slice = "'v list \<times> 'v list"

primrec dec_elems ::
  "('v \<Rightarrow> json \<Rightarrow> json_error + 'v) \<Rightarrow> 'v \<Rightarrow> 'v list \<Rightarrow> json list \<Rightarrow> json_error + 'v list"
where
  "dec_elems dec_elem zero backing [] = Inr []"
| "dec_elems dec_elem zero backing (x # xs) =
     (case dec_elem (case backing of [] \<Rightarrow> zero | c # _ \<Rightarrow> c) x of
        Inl e \<Rightarrow> Inl e
      | Inr y \<Rightarrow>
          (case dec_elems dec_elem zero (tl backing) xs of
             Inl e \<Rightarrow> Inl e
           | Inr ys \<Rightarrow> Inr (y # ys)))"

definition dec_slice ::
  "('v \<Rightarrow> json \<Rightarrow> json_error + 'v) \<Rightarrow> 'v \<Rightarrow> 'v slice \<Rightarrow> json \<Rightarrow> json_error + 'v slice"
where
  "dec_slice dec_elem zero cur j =
     (case j of
        JNull \<Rightarrow> Inr ([], [])
      | JArray xs \<Rightarrow>
          (case dec_elems dec_elem zero (fst cur @ snd cur) xs of
             Inl e \<Rightarrow> Inl e
           | Inr ys \<Rightarrow>
               if xs = [] then Inr ([], [])
               else Inr (ys, drop (length xs) (fst cur @ snd cur)))
      | _ \<Rightarrow> Inl UnmarshalTypeError)"

text \<open>
  The anonymous structs of the response types have one field each. Such a struct is
  modelled by the value of its field, and \<open>dec_field name dec\<close> decodes an object into
  it: the members named \<open>name\<close> go to the field, the others are skipped.
\<close>

definition dec_field ::
  "string \<Rightarrow> ('a \<Rightarrow> json \<Rightarrow> json_error + 'a) \<Rightarrow> 'a \<Rightarrow> json \<Rightarrow> json_error + 'a"
where
  "dec_field name dec =
     dec_struct (\<lambda>cur kv. case kv of (k, v) \<Rightarrow> if fieldMatch k name then dec cur v else Inr cur)"

definition memberStatus_member ::
  "memberStatus \<Rightarrow> string \<times> json \<Rightarrow> json_error + memberStatus"
where
  "memberStatus_member st kv =
     (case kv of (k, v) \<Rightarrow>
        if fieldMatch k ''User'' then
          (case dec_field ''Login'' dec_string (Login (User st)) v of
             Inl e \<Rightarrow> Inl e
           | Inr l \<Rightarrow> Inr (st\<lparr>User := \<lparr>Login = l\<rparr>\<rparr>))
        else status_member st kv)"

definition dec_memberStatus :: "memberStatus \<Rightarrow> json \<Rightarrow> json_error + memberStatus" where
  "dec_memberStatus = dec_struct memberStatus_member"

text \<open>
  \<open>json.Unmarshal(out.Bytes(), &resp)\<close> at the three response types of main.go:
  \<^item> \<open>runSet\<close>: \<open>struct { Data struct { ChangeUserStatus struct { Status status } } }\<close>;
  \<^item> \<open>apiTeam\<close>: \<open>Data.Organization.Team.MemberStatuses.Nodes []memberStatus\<close>;
  \<^item> \<open>apiStatus\<close>: \<open>map[string]map[string]map[string]status\<close>, starting from the empty map.
\<close>

definition unmarshal_set :: "body \<Rightarrow> json_error + status" where
  "unmarshal_set b =
     (case b of
        Malformed \<Rightarrow> Inl SyntaxError
      | Doc j \<Rightarrow>
          dec_field ''Data'' (dec_field ''ChangeUserStatus'' (dec_field ''Status'' dec_status))
            zero_status j)"

definition unmarshal_team :: "body \<Rightarrow> json_error + memberStatus list" where
  "unmarshal_team b =
     (case b of
        Malformed \<Rightarrow> Inl SyntaxError
      | Doc j \<Rightarrow>
          (case dec_field ''Data'' (dec_field ''Organization'' (dec_field ''Team''
                  (dec_field ''MemberStatuses''
                    (dec_field ''Nodes'' (dec_slice dec_memberStatus zero_memberStatus)))))
                  ([], []) j of
             Inl e \<Rightarrow> Inl e
           | Inr nodes \<Rightarrow> Inr (fst nodes)))"

type_synonym status_map = "string \<rightharpoonup> (string \<rightharpoonup> (string \<rightharpoonup> status))"

definition unmarshal_status :: "body \<Rightarrow> json_error + status_map" where
  "unmarshal_status b =
     (case b of
        Malformed \<Rightarrow> Inl SyntaxError
      | Doc j \<Rightarrow>
          dec_map (dec_map (dec_map dec_status zero_status) Map.empty) Map.empty Map.empty j)"

text \<open>Indexing a Go map: the zero value of the element type when the key is missing.\<close>

definition index_map :: "(string \<rightharpoonup> 'v) \<Rightarrow> string \<Rightarrow> 'v \<Rightarrow> 'v" where
  "index_map m k zero = (case m k of None \<Rightarrow> zero | Some v \<Rightarrow> v)"

subsection \<open>Time\<close>

text \<open>
  A \<open>time.Time\<close> is an instant (seconds and nanoseconds since the Unix epoch) and a
  location, here the offset east of UTC, in seconds, that the location has at a given
  instant. A \<open>time.Duration\<close> is a signed 64-bit count of nanoseconds. The seconds are
  mathematical integers: \<open>Add\<close> saturates in Go only where the sum leaves 64 bits, which a
  clock reading plus a duration (at most 292 years) does not.
\<close>

record time =
  unixSec :: int
  nsec :: int
  loc :: "int \<Rightarrow> int"

type_synonym duration = "64 word"

definition tquot :: "int \<Rightarrow> int \<Rightarrow> int" where
  "tquot a b = (if a < 0 then - ((- a) div b) else a div b)"

definition trem :: "int \<Rightarrow> int \<Rightarrow> int" where
  "trem a b = a - b * tquot a b"

definition time_Add :: "time \<Rightarrow> duration \<Rightarrow> time" where
  "time_Add t d =
     (let dsec = tquot (sint d) 1000000000;
          n = nsec t + trem (sint d) 1000000000
      in if n \<ge> 1000000000 then t\<lparr>unixSec := unixSec t + dsec + 1, nsec := n - 1000000000\<rparr>
         else if n < 0 then t\<lparr>unixSec := unixSec t + dsec - 1, nsec := n + 1000000000\<rparr>
         else t\<lparr>unixSec := unixSec t + dsec, nsec := n\<rparr>)"

text \<open>\<open>appendInt\<close> of package time: decimal, zero-padded to a width, the sign first.\<close>

function utoa :: "nat \<Rightarrow> string" where
  "utoa n = (if n < 10 then [char_of (48 + n)] else utoa (n div 10) @ [char_of (48 + n mod 10)])"
  by pat_completeness auto
termination
  by (relation "measure id") auto

declare utoa.simps [simp del]

definition appendInt :: "int \<Rightarrow> nat \<Rightarrow> string" where
  "appendInt x width =
     (let ds = utoa (nat \<bar>x\<bar>)
      in (if x < 0 then ''-'' else []) @ replicate (width - length ds) (CHR ''0'') @ ds)"

text \<open>
  The date of the proleptic Gregorian calendar that lies \<open>z\<close> days after 1970-01-01, as
  (year, month, day). The days are counted from 0000-03-01 and whole cycles of 400, 100,
  4 and 1 years are cut off, as package time does; what is left is the day of a year
  that starts in March, so that a leap day comes last.
\<close>

definition civil :: "int \<Rightarrow> int \<times> int \<times> int" where
  "civil z =
     (let d0 = z + 719468;
          n400 = d0 div 146097;
          d1 = d0 mod 146097;
          n100 = min 3 (d1 div 36524);
          d2 = d1 - 36524 * n100;
          n4 = d2 div 1461;
          d3 = d2 mod 1461;
          n1 = min 3 (d3 div 365);
          doy = d3 - 365 * n1;
          mp = (5 * doy + 2) div 153;
          d = doy - (153 * mp + 2) div 5 + 1;
          m = (if mp < 10 then mp + 3 else mp - 9);
          y = 400 * n400 + 100 * n100 + 4 * n4 + n1 + (if m \<le> 2 then 1 else 0)
      in (y, m, d))"

text \<open>\<open>t.Format("2006-01-02T15:04:05-0700")\<close>, the one layout the program uses.\<close>

definition time_Format :: "time \<Rightarrow> string" where
  "time_Format t =
     (let off = loc t (unixSec t);
          local = unixSec t + off;
          sod = local mod 86400;
          zone = tquot off 60;
          z = \<bar>zone\<bar>
      in (case civil (local div 86400) of (y, m, d) \<Rightarrow>
            appendInt y 4 @ ''-'' @ appendInt m 2 @ ''-'' @ appendInt d 2 @ ''T''
            @ appendInt (sod div 3600) 2 @ '':'' @ appendInt (sod mod 3600 div 60) 2
            @ '':'' @ appendInt (sod mod 60) 2
            @ (if zone < 0 then ''-'' else ''+'') @ appendInt (z div 60) 2
            @ appendInt (z mod 60) 2))"

subsection \<open>The world outside the process\<close>

text \<open>
  Each call of \<open>gh\<close>, \<open>ghWithInput\<close>, \<open>survey.AskOne\<close> and \<open>fmt.Println\<close> is an event;
  the trace is the list of events so far, oldest first. The environment answers a call
  from the whole trace before it, so the \<open>gh\<close> binary may answer the same arguments
  differently the second time. The events \<open>Gh args\<close> and \<open>GhWithInput args\<close> record that
  the Go function was called: it starts a process only when \<open>safeexec.LookPath\<close> finds
  the binary, that is when the environment does not answer \<open>NotFound\<close> (see \<open>processes\<close>
  below).
  \<^item> \<open>tool tr args\<close>: what running \<open>gh\<close> with \<open>args\<close> does. \<open>NotFound e\<close>:
    \<open>safeexec.LookPath\<close> fails with \<open>e\<close>. \<open>Exited r out err\<close>: \<open>cmd.Run\<close> returns \<open>r\<close>
    (\<open>None\<close> is nil, exit status 0) having written \<open>out\<close> and \<open>err\<close>.
  \<^item> \<open>confirm tr\<close>: what \<open>survey.AskOne\<close> does with the confirmation prompt: an error, or
    the answer stored.
  \<^item> \<open>time_Now\<close>: the reading of \<open>time.Now()\<close>.
  \<^item> \<open>ReplaceAll\<close>: the method of the emoji manager, whose file is not part of main.go.
\<close>

datatype event =
    Gh "string list"
  | GhWithInput "string list"
  | AskOne string
  | Println string

datatype reply = NotFound string | Exited "string option" body string

record env =
  tool :: "event list \<Rightarrow> string list \<Rightarrow> reply"
  confirm :: "event list \<Rightarrow> string + bool"
  time_Now :: time
  ReplaceAll :: "string \<Rightarrow> string"

text \<open>
  \<open>gh\<close>: stdout, stderr and the error. Without the binary it returns before
  \<open>exec.Command\<close>: no process runs and both buffers stay empty.
\<close>

definition gh ::
  "env \<Rightarrow> string list \<Rightarrow> event list \<Rightarrow> (body \<times> string \<times> error option) \<times> event list"
where
  "gh E args tr =
     (case tool E tr args of
        NotFound e \<Rightarrow> (Malformed, [], Some (ToolNotFound e))
      | Exited None sout eout \<Rightarrow> (sout, eout, None)
      | Exited (Some e) sout eout \<Rightarrow> (sout, eout, Some (ToolExecutionFailed e eout)),
      tr @ [Gh args])"

definition ghWithInput :: "env \<Rightarrow> string list \<Rightarrow> event list \<Rightarrow> error option \<times> event list" where
  "ghWithInput E args tr =
     (case tool E tr args of
        NotFound e \<Rightarrow> Some (ToolNotFound e)
      | Exited None sout eout \<Rightarrow> None
      | Exited (Some e) sout eout \<Rightarrow> Some (ToolExecutionFailedInteractive e),
      tr @ [GhWithInput args])"

subsection \<open>Setting and clearing the status\<close>

record setOptions =
  set_Message :: string
  set_Limited :: bool
  set_Expiry :: duration
  set_Emoji :: string
  set_OrgName :: string

record getOptions =
  get_Login :: string

definition mutation :: string where
  "mutation =
      ''mutation($emoji: String!, $message: String!, $limited: Boolean!, $expiry: DateTime) {''
      @ nl @ tab @ tab @ ''changeUserStatus(input: {emoji: $emoji, message: $message, limitedAvailability: $limited, expiresAt: $expiry}) {''
      @ nl @ tab @ tab @ tab @ ''status {''
      @ nl @ tab @ tab @ tab @ tab @ ''message''
      @ nl @ tab @ tab @ tab @ tab @ ''emoji''
      @ nl @ tab @ tab @ tab @ ''}''
      @ nl @ tab @ tab @ ''}''
      @ nl @ tab @ ''}''"

text \<open>The four variables of the mutation, as \<open>runSet\<close> computes them from the options.\<close>

definition set_limited :: "setOptions \<Rightarrow> string" where
  "set_limited opts = (if set_Limited opts then ''true'' else ''false'')"

definition set_expiry :: "env \<Rightarrow> setOptions \<Rightarrow> string" where
  "set_expiry E opts =
     (if 0 <s set_Expiry opts then time_Format (time_Add (time_Now E) (set_Expiry opts))
      else ''null'')"

definition set_emoji :: "setOptions \<Rightarrow> string" where
  "set_emoji opts = (if set_Emoji opts \<noteq> [] then '':'' @ set_Emoji opts @ '':'' else [])"

definition cmdArgs :: "env \<Rightarrow> setOptions \<Rightarrow> string list" where
  "cmdArgs E opts =
     [''api'', ''graphql'',
      ''-f'', ''query='' @ mutation,
      ''-f'', ''message='' @ set_Message opts,
      ''-f'', ''emoji='' @ set_emoji opts,
      ''-F'', ''limited='' @ set_limited opts,
      ''-F'', ''expiry='' @ set_expiry E opts]"

definition scope_marker :: string where
  "scope_marker = ''one of the following scopes: ['' @ [CHR 0x27] @ ''user'' @ [CHR 0x27] @ '']''"

definition scope_notice :: string where
  "scope_notice =
     ''! Sorry, this extension requires the '' @ [CHR 0x27] @ ''user'' @ [CHR 0x27] @ '' scope.''"

definition question :: string where
  "question = ''Would you like to add the user scope now?''"

definition check_mark :: string where
  "check_mark = [CHR 0xE2, CHR 0x9C, CHR 0x93]"

text \<open>
  \<open>runSet\<close> from the decoding of the response on (main.go, lines 192 to 212), reached
  with the stdout of the call of \<open>gh\<close> that succeeded. The result is the Go error,
  \<open>None\<close> for nil.
\<close>

definition runSet_decode ::
  "env \<Rightarrow> setOptions \<Rightarrow> body \<Rightarrow> event list \<Rightarrow> error option \<times> event list"
where
  "runSet_decode E opts out tr =
     (case unmarshal_set out of
        Inl e \<Rightarrow> (Some (DecodeError (Some e)), tr)
      | Inr resp \<Rightarrow>
          if Emoji resp \<noteq> set_emoji opts then (Some VerificationFailed, tr)
          else (None,
                tr @ [Println (ReplaceAll E
                  (check_mark @ '' Status set to '' @ set_emoji opts @ '' ''
                     @ set_Message opts))]))"

definition runSet :: "env \<Rightarrow> setOptions \<Rightarrow> event list \<Rightarrow> error option \<times> event list" where
  "runSet E opts tr =
     (case gh E (cmdArgs E opts) tr of
        ((out, stderr, None), tr1) \<Rightarrow> runSet_decode E opts out tr1
      | ((out, stderr, Some err), tr1) \<Rightarrow>
          if \<not> strings_Contains stderr scope_marker then (Some err, tr1)
          else
            (let tr2 = tr1 @ [Println scope_notice];
                 tr3 = tr2 @ [AskOne question]
             in case confirm E tr2 of
                  Inl e \<Rightarrow> (Some (PromptFailed e), tr3)
                | Inr answer \<Rightarrow>
                    if \<not> answer then (None, tr3)
                    else
                      (case ghWithInput E [''auth'', ''refresh'', ''-s'', ''user''] tr3 of
                         (Some e, tr4) \<Rightarrow> (Some e, tr4)
                       | (None, tr4) \<Rightarrow>
                           (case gh E (cmdArgs E opts) tr4 of
                              ((out', stderr', Some e), tr5) \<Rightarrow> (Some e, tr5)
                            | ((out', stderr', None), tr5) \<Rightarrow>
                                runSet_decode E opts out' tr5))))"

text \<open>\<open>clearCmd\<close> runs \<open>runSet\<close> on these options; the fields it leaves out are zero.\<close>

definition clear_opts :: setOptions where
  "clear_opts =
     \<lparr>set_Message = [], set_Limited = False, set_Expiry = 0, set_Emoji = [],
      set_OrgName = []\<rparr>"

subsection \<open>Reading a status\<close>

definition team_query :: "string \<Rightarrow> string \<Rightarrow> string" where
  "team_query login slug =
      ''query {''
      @ nl @ ''      organization(login:'' @ dq
      @ login @
      dq @ '') {''
      @ nl @ ''        team(slug:'' @ dq
      @ slug @
      dq @ '') {''
      @ nl @ ''          memberStatuses(first: 100) {''
      @ nl @ ''            nodes { indicatesLimitedAvailability message emoji user { login } }''
      @ nl @ ''          }''
      @ nl @ ''        }''
      @ nl @ ''      }''
      @ nl @ ''    }''"

definition apiTeam ::
  "env \<Rightarrow> string \<Rightarrow> string \<Rightarrow> event list \<Rightarrow> (error + memberStatus list) \<times> event list"
where
  "apiTeam E login slug tr =
     (let login = (if login = [] then ''{owner}'' else login);
          query = team_query login slug;
          args = [''api'', ''graphql'', ''-f'', ''query='' @ query]
      in case gh E args tr of
           ((sout, eout, Some err), tr1) \<Rightarrow> (Inl err, tr1)
         | ((sout, eout, None), tr1) \<Rightarrow>
             (case unmarshal_team sout of
                Inl e \<Rightarrow> (Inl (DecodeError (Some e)), tr1)
              | Inr nodes \<Rightarrow> (Inr nodes, tr1)))"

definition user_query :: "string \<Rightarrow> string" where
  "user_query login =
      ''query { user(login:'' @ dq
      @ login @
      dq @ '') { status { indicatesLimitedAvailability message emoji }}}''"

definition viewer_query :: string where
  "viewer_query =
      ''query {viewer { status { indicatesLimitedAvailability message emoji }}}''"

definition status_key :: "string \<Rightarrow> string" where
  "status_key login = (if login = [] then ''viewer'' else ''user'')"

definition status_query :: "string \<Rightarrow> string" where
  "status_query login = (if login = [] then viewer_query else user_query login)"

text \<open>
  \<open>apiStatus\<close> after the call of \<open>gh\<close> (main.go, lines 367 to 379): decode, then index
  \<open>resp["data"][key]["status"]\<close> with the comma-ok form.
\<close>

definition apiStatus_decode :: "string \<Rightarrow> body \<Rightarrow> error + status" where
  "apiStatus_decode key sout =
     (case unmarshal_status sout of
        Inl e \<Rightarrow> Inl (DecodeError (Some e))
      | Inr resp \<Rightarrow>
          (case index_map (index_map resp ''data'' Map.empty) key Map.empty ''status'' of
             None \<Rightarrow> Inl (DecodeError None)
           | Some s \<Rightarrow> Inr s))"

definition apiStatus :: "env \<Rightarrow> string \<Rightarrow> event list \<Rightarrow> (error + status) \<times> event list" where
  "apiStatus E login tr =
     (let key = status_key login;
          query = status_query login;
          args = [''api'', ''graphql'', ''-f'', ''query='' @ query]
      in case gh E args tr of
           ((sout, eout, Some err), tr1) \<Rightarrow> (Inl err, tr1)
         | ((sout, eout, None), tr1) \<Rightarrow> (apiStatus_decode key sout, tr1))"

definition availability :: "bool \<Rightarrow> string" where
  "availability limited = (if limited then ''(availability is limited)'' else [])"

text \<open>The loop of \<open>runGetTeam\<close>: one line per node, in order.\<close>

primrec print_nodes :: "env \<Rightarrow> memberStatus list \<Rightarrow> event list \<Rightarrow> event list" where
  "print_nodes E [] tr = tr"
| "print_nodes E (n # ns) tr =
     print_nodes E ns
       (tr @ [Println (ReplaceAll E
          (Login (User n) @ '': '' @ Emoji n @ '' '' @ Message n @ '' ''
             @ availability (IndicatesLimitedAvailability n)))])"

definition runGetTeam :: "env \<Rightarrow> getOptions \<Rightarrow> event list \<Rightarrow> error option \<times> event list" where
  "runGetTeam E opts tr =
     (case strings_Split (get_Login opts) ''/'' of
        login # slug # rest \<Rightarrow>
          (case apiTeam E login slug tr of
             (Inl err, tr1) \<Rightarrow> (Some err, tr1)
           | (Inr nodes, tr1) \<Rightarrow> (None, print_nodes E nodes tr1))
      | _ \<Rightarrow> (Some IndexOutOfRange, tr))"

definition runGetUser :: "env \<Rightarrow> getOptions \<Rightarrow> event list \<Rightarrow> error option \<times> event list" where
  "runGetUser E opts tr =
     (case apiStatus E (get_Login opts) tr of
        (Inl err, tr1) \<Rightarrow> (Some err, tr1)
      | (Inr s, tr1) \<Rightarrow>
          (None,
           tr1 @ [Println (ReplaceAll E
             (Emoji s @ '' '' @ Message s @ '' ''
                @ availability (IndicatesLimitedAvailability s)))]))"

definition runGet :: "env \<Rightarrow> getOptions \<Rightarrow> event list \<Rightarrow> error option \<times> event list" where
  "runGet E opts tr =
     (if strings_Contains (get_Login opts) ''/'' then runGetTeam E opts tr
      else runGetUser E opts tr)"

subsection \<open>Reading a trace\<close>

text \<open>The argument vectors of the calls of \<open>gh\<close> in a trace, in order.\<close>

primrec gh_calls :: "event list \<Rightarrow> string list list" where
  "gh_calls [] = []"
| "gh_calls (e # es) = (case e of Gh args \<Rightarrow> args # gh_calls es | _ \<Rightarrow> gh_calls es)"



text \<open>The argument vector \<open>apiTeam\<close> builds, and the one of \<open>apiStatus\<close>.\<close>

definition team_args :: "string \<Rightarrow> string \<Rightarrow> string list" where
  "team_args login slug =
     [''api'', ''graphql'', ''-f'',
      ''query='' @ team_query (if login = [] then ''{owner}'' else login) slug]"

definition status_args :: "string \<Rightarrow> string list" where
  "status_args login = [''api'', ''graphql'', ''-f'', ''query='' @ status_query login]"

text \<open>The instant of a time, in nanoseconds since the epoch.\<close>

definition instant :: "time \<Rightarrow> int" where
  "instant t = unixSec t * 1000000000 + nsec t"

subsection \<open>The calendar and the layout, independently of the formatter\<close>

text \<open>
  The Gregorian calendar by its rules: leap years, the lengths of the months, and the
  number of days from 1970-01-01 to a date, counted year by year and month by month.
\<close>

definition leap :: "int \<Rightarrow> bool" where
  "leap y = (y mod 4 = 0 \<and> (y mod 100 \<noteq> 0 \<or> y mod 400 = 0))"

definition days_in_month :: "int \<Rightarrow> int \<Rightarrow> int" where
  "days_in_month y m =
     (if m = 2 then (if leap y then 29 else 28)
      else if m = 4 \<or> m = 6 \<or> m = 9 \<or> m = 11 then 30 else 31)"

definition valid_date :: "int \<Rightarrow> int \<Rightarrow> int \<Rightarrow> bool" where
  "valid_date y m d = (1 \<le> m \<and> m \<le> 12 \<and> 1 \<le> d \<and> d \<le> days_in_month y m)"

text \<open>The leap years among the years 1 to \<open>y\<close>.\<close>

definition leaps_upto :: "int \<Rightarrow> int" where
  "leaps_upto y = y div 4 - y div 100 + y div 400"

definition days_before_year :: "int \<Rightarrow> int" where
  "days_before_year y = 365 * (y - 1970) + (leaps_upto (y - 1) - leaps_upto 1969)"

definition days_before_month :: "int \<Rightarrow> int \<Rightarrow> int" where
  "days_before_month y m =
     [0, 31, 59, 90, 120, 151, 181, 212, 243, 273, 304, 334] ! nat (m - 1)
       + (if 2 < m \<and> leap y then 1 else 0)"

definition days_from_civil :: "int \<Rightarrow> int \<Rightarrow> int \<Rightarrow> int" where
  "days_from_civil y m d = days_before_year y + days_before_month y m + (d - 1)"

text \<open>A number written with two digits, and with four.\<close>

definition digit :: "nat \<Rightarrow> char" where
  "digit n = char_of (48 + n)"

definition two :: "int \<Rightarrow> string" where
  "two n = [digit (nat n div 10), digit (nat n mod 10)]"

definition four :: "int \<Rightarrow> string" where
  "four n =
     [digit (nat n div 1000), digit (nat n div 100 mod 10), digit (nat n div 10 mod 10),
      digit (nat n mod 10)]"

subsection \<open>The shape of a single-user response, independently of the decoder\<close>

text \<open>
  What the type \<open>map[string]map[string]map[string]status\<close> asks of a document: the
  document, its members and their members are objects (or null), and the members of
  those are status objects (or null): objects whose members named after a field of
  \<open>status\<close> hold a value of the field's type (or null).
\<close>

definition string_or_null :: "json \<Rightarrow> bool" where
  "string_or_null j = (case j of JNull \<Rightarrow> True | JString s \<Rightarrow> True | _ \<Rightarrow> False)"

definition bool_or_null :: "json \<Rightarrow> bool" where
  "bool_or_null j = (case j of JNull \<Rightarrow> True | JBool b \<Rightarrow> True | _ \<Rightarrow> False)"

definition status_member_shaped :: "string \<times> json \<Rightarrow> bool" where
  "status_member_shaped kv =
     (if fieldMatch (fst kv) ''IndicatesLimitedAvailability'' then bool_or_null (snd kv)
      else if fieldMatch (fst kv) ''Message'' then string_or_null (snd kv)
      else if fieldMatch (fst kv) ''Emoji'' then string_or_null (snd kv)
      else True)"

definition status_shaped :: "json \<Rightarrow> bool" where
  "status_shaped j =
     (case j of JNull \<Rightarrow> True | JObject kvs \<Rightarrow> list_all status_member_shaped kvs | _ \<Rightarrow> False)"

definition object_of :: "(json \<Rightarrow> bool) \<Rightarrow> json \<Rightarrow> bool" where
  "object_of P j =
     (case j of JNull \<Rightarrow> True | JObject kvs \<Rightarrow> list_all (\<lambda>kv. P (snd kv)) kvs | _ \<Rightarrow> False)"

definition response_shaped :: "json \<Rightarrow> bool" where
  "response_shaped = object_of (object_of (object_of status_shaped))"

text \<open>
  The member of an object under a key: the last one of that name. \<open>status_at j key\<close> is
  the value at the path data, \<open>key\<close>, status of the document, if the path exists.
\<close>

definition member :: "json \<Rightarrow> string \<Rightarrow> json option" where
  "member j k = (case j of JObject kvs \<Rightarrow> map_of (rev kvs) k | _ \<Rightarrow> None)"

definition status_at :: "json \<Rightarrow> string \<Rightarrow> json option" where
  "status_at j key =
     (case member j ''data'' of
        None \<Rightarrow> None
      | Some d \<Rightarrow> (case member d key of None \<Rightarrow> None | Some u \<Rightarrow> member u ''status''))"

subsection \<open>Concrete environments and documents\<close>

text \<open>
  The documents GitHub answers with, and environments that replay fixed answers; the
  theorems below are run on them.
\<close>

definition t0 :: time where
  "t0 = \<lparr>unixSec = 1700000000, nsec = 0, loc = (\<lambda>u. - 25200)\<rparr>"

definition env_const :: "reply \<Rightarrow> env" where
  "env_const r =
     \<lparr>tool = (\<lambda>tr args. r), confirm = (\<lambda>tr. Inr True), time_Now = t0,
      ReplaceAll = (\<lambda>s. s)\<rparr>"

definition scope_stderr :: string where
  "scope_stderr = ''gh: Your token has not been granted the required scopes. It requires '' @ scope_marker"

text \<open>
  The first call of \<open>gh\<close> fails for the missing scope; the prompt gives \<open>answer\<close>;
  \<open>gh auth refresh\<close> does \<open>reauth\<close>; a later call of \<open>gh\<close> does \<open>retry\<close>.
\<close>

definition env_scope :: "string + bool \<Rightarrow> reply \<Rightarrow> reply \<Rightarrow> env" where
  "env_scope answer reauth retry =
     \<lparr>tool = (\<lambda>tr args.
         if take 1 args = [''auth''] then reauth
         else if tr = [] then Exited (Some ''exit status 1'') Malformed scope_stderr
         else retry),
      confirm = (\<lambda>tr. answer), time_Now = t0, ReplaceAll = (\<lambda>s. s)\<rparr>"

definition status_json :: "bool \<Rightarrow> string \<Rightarrow> string \<Rightarrow> json" where
  "status_json limited message emoji =
     JObject [(''indicatesLimitedAvailability'', JBool limited),
              (''message'', JString message), (''emoji'', JString emoji)]"

definition set_doc :: "json \<Rightarrow> json" where
  "set_doc st = JObject [(''data'', JObject [(''changeUserStatus'', JObject [(''status'', st)])])]"

definition status_doc :: "string \<Rightarrow> json \<Rightarrow> json" where
  "status_doc key st = JObject [(''data'', JObject [(key, JObject [(''status'', st)])])]"

definition node_json :: json where
  "node_json =
     JObject [(''indicatesLimitedAvailability'', JBool False), (''message'', JString ''hi''),
              (''emoji'', JString '':wave:''), (''user'', JObject [(''login'', JString ''octocat'')])]"

definition team_doc :: "json list \<Rightarrow> json" where
  "team_doc nodes =
     JObject [(''data'', JObject [(''organization'', JObject [(''team'',
       JObject [(''memberStatuses'', JObject [(''nodes'', JArray nodes)])])])])]"

definition rocket_opts :: setOptions where
  "rocket_opts =
     \<lparr>set_Message = ''shipping'', set_Limited = False, set_Expiry = 1800000000000,
      set_Emoji = ''rocket'', set_OrgName = []\<rparr>"

text \<open>
  Three runs of the recovery: the caller accepts and \<open>gh auth refresh\<close> exits with
  status 1 (a retry, had there been one, would have succeeded); the caller declines; the
  caller accepts, the refresh succeeds and the retry fails for the same missing scope.
\<close>

definition env_refresh_fails :: env where
  "env_refresh_fails =
     env_scope (Inr True) (Exited (Some ''exit status 1'') Malformed [])
       (Exited None (Doc (set_doc (status_json False [] []))) [])"

definition env_declined :: env where
  "env_declined = env_scope (Inr False) (Exited None Malformed []) (Exited None Malformed [])"

definition env_retry_fails :: env where
  "env_retry_fails =
     env_scope (Inr True) (Exited None Malformed [])
       (Exited (Some ''exit status 1'') Malformed scope_stderr)"

text \<open>The recovery succeeds: the retry is answered with the emoji ":rocket:".\<close>

definition env_retry_ok :: env where
  "env_retry_ok =
     env_scope (Inr True) (Exited None Malformed [])
       (Exited None (Doc (set_doc (status_json False ''shipping'' '':rocket:''))) [])"


text \<open>
  A response with a null status at the path data, user, status, next to a top-level
  member that is a number.
\<close>

definition null_extensions_doc :: json where
  "null_extensions_doc =
     JObject [(''data'', JObject [(''user'', JObject [(''status'', JNull)])]),
              (''extensions'', JNumber ''1'')]"

definition both_doc :: json where
  "both_doc =
     JObject [(''data'', JObject
       [(''viewer'', JObject [(''status'', status_json False ''mine'' '':wave:'')]),
        (''user'', JObject [(''status'', status_json True ''theirs'' '':zzz:'')])])]"

text \<open>
  Further environments: \<open>gh\<close> always succeeds and prints the same document.
  \<open>env_echo emoji\<close> answers a mutation by echoing \<open>emoji\<close>; \<open>env_both\<close> answers with a
  status under "viewer" and another under "user"; \<open>env_team100\<close> answers with a roster
  of exactly 100 members.
\<close>

definition env_echo :: "string \<Rightarrow> env" where
  "env_echo emoji = env_const (Exited None (Doc (set_doc (status_json False ''shipping'' emoji))) [])"

definition env_both :: env where
  "env_both = env_const (Exited None (Doc both_doc) [])"

definition env_team100 :: env where
  "env_team100 = env_const (Exited None (Doc (team_doc (replicate 100 node_json))) [])"


definition env_reply :: "json \<Rightarrow> env" where
  "env_reply j = env_const (Exited None (Doc j) [])"

text \<open>
  A response whose path data, user, status leads to a proper status object, next to a
  top-level member that is a number.
\<close>

definition extensions_doc :: json where
  "extensions_doc =
     JObject [(''data'', JObject [(''user'', JObject [(''status'', status_json False ''hi'' '':wave:'')])]),
              (''extensions'', JNumber ''1'')]"

text \<open>A result that is one of the two "failed to deserialize JSON" errors.\<close>

definition decode_failed :: "error + 'a \<Rightarrow> bool" where
  "decode_failed r = (case r of Inl (DecodeError e) \<Rightarrow> True | _ \<Rightarrow> False)"

text \<open>
  The team query for organization "octo" and team "cats", and the one for the
  placeholder organization and team "cats", byte for byte.
\<close>

definition octo_cats_query :: string where
  "octo_cats_query =
          ''query {'' @ [CHR 0x0A] @ ''      organization(login:'' @ [CHR 0x22] @ ''octo''
          @ [CHR 0x22] @ '') {'' @ [CHR 0x0A] @ ''        team(slug:'' @ [CHR 0x22] @ ''cats''
          @ [CHR 0x22] @ '') {'' @ [CHR 0x0A] @ ''          memberStatuses(first: 100) {''
          @ [CHR 0x0A]
          @ ''            nodes { indicatesLimitedAvailability message emoji user { login } }''
          @ [CHR 0x0A] @ ''          }'' @ [CHR 0x0A] @ ''        }'' @ [CHR 0x0A]
          @ ''      }'' @ [CHR 0x0A] @ ''    }''"

definition owner_cats_query :: string where
  "owner_cats_query =
          ''query {'' @ [CHR 0x0A] @ ''      organization(login:'' @ [CHR 0x22] @ ''{owner}''
          @ [CHR 0x22] @ '') {'' @ [CHR 0x0A] @ ''        team(slug:'' @ [CHR 0x22] @ ''cats''
          @ [CHR 0x22] @ '') {'' @ [CHR 0x0A] @ ''          memberStatuses(first: 100) {''
          @ [CHR 0x0A]
          @ ''            nodes { indicatesLimitedAvailability message emoji user { login } }''
          @ [CHR 0x0A] @ ''          }'' @ [CHR 0x0A] @ ''        }'' @ [CHR 0x0A]
          @ ''      }'' @ [CHR 0x0A] @ ''    }''"

section \<open>Properties\<close>

subsection \<open>Strings\<close>

lemma strings_Contains_byte: "strings_Contains s [c] \<longleftrightarrow> c \<in> set s"
  by (induction s) (auto simp: hasPrefix_def)

lemma strings_Contains_prefix: "strings_Contains (b @ c) b"
proof (cases "b @ c")
  case Nil
  then show ?thesis by simp
next
  case (Cons x xs)
  have "hasPrefix (b @ c) b" by (simp add: hasPrefix_def)
  then have "strings_Contains (x # xs) b" unfolding Cons by simp
  then show ?thesis unfolding Cons .
qed

lemma strings_Contains_mid: "strings_Contains (a @ b @ c) b"
  by (induction a) (simp_all add: strings_Contains_prefix)

lemma splitByte_not_Nil: "splitByte c s \<noteq> []"
  by (induction s) (auto split: list.splits)

lemma splitByte_notin: "c \<notin> set a \<Longrightarrow> splitByte c a = [a]"
  by (induction a) auto

lemma splitByte_append: "c \<notin> set a \<Longrightarrow> splitByte c (a @ c # r) = a # splitByte c r"
  by (induction a) auto

lemma splitByte_in:
  assumes "c \<in> set s"
  shows "\<exists>a b r. splitByte c s = a # b # r"
proof -
  from assms obtain a r where s: "s = a @ c # r" and a: "c \<notin> set a"
    by (auto dest: split_list_first)
  obtain b rest where "splitByte c r = b # rest"
    using splitByte_not_Nil [of c r] by (cases "splitByte c r") auto
  with s a show ?thesis by (simp add: splitByte_append)
qed

lemma viewer_query_no_login: "\<not> strings_Contains viewer_query ''login''"
  by code_simp

lemma team_query_text:
  "team_query (if org = [] then ''{owner}'' else org) slug =
          ''query {'' @ [CHR 0x0A] @ ''      organization(login:'' @ [CHR 0x22]
          @ (if org = [] then ''{owner}'' else org) @ [CHR 0x22] @ '') {'' @ [CHR 0x0A]
          @ ''        team(slug:'' @ [CHR 0x22] @ slug @ [CHR 0x22] @ '') {'' @ [CHR 0x0A]
          @ ''          memberStatuses(first: 100) {'' @ [CHR 0x0A]
          @ ''            nodes { indicatesLimitedAvailability message emoji user { login } }''
          @ [CHR 0x0A] @ ''          }'' @ [CHR 0x0A] @ ''        }'' @ [CHR 0x0A]
          @ ''      }'' @ [CHR 0x0A] @ ''    }''"
  by (simp add: team_query_def nl_def dq_def)

subsection \<open>Calls of the tool\<close>

lemma gh_calls_append: "gh_calls (xs @ ys) = gh_calls xs @ gh_calls ys"
  by (induction xs) (auto split: event.splits)

lemma gh_trace: "snd (gh E args tr) = tr @ [Gh args]"
  by (simp add: gh_def)

lemma gh_result:
  "gh E args tr = ((sout, eout, err), tr1) \<Longrightarrow> tr1 = tr @ [Gh args]"
  using gh_trace [of E args tr] by simp

lemma ghWithInput_trace: "snd (ghWithInput E args tr) = tr @ [GhWithInput args]"
  by (simp add: ghWithInput_def)

lemma gh_env_const:
  "gh (env_const (Exited None sout eout)) args tr = ((sout, eout, None), tr @ [Gh args])"
  by (simp add: gh_def env_const_def)

lemma marker_not_in_empty: "\<not> strings_Contains [] scope_marker"
  by (simp add: scope_marker_def)

lemma scope_stderr_marker: "strings_Contains scope_stderr scope_marker"
  unfolding scope_stderr_def
  using strings_Contains_mid [of _ scope_marker "[]"] by (simp only: append_Nil2)

lemma cmdArgs_take1: "take 1 (cmdArgs E opts) = [''api'']"
  by (simp add: cmdArgs_def)

lemma gh_env_scope_first:
  "gh (env_scope a r1 r2) (cmdArgs (env_scope a r1 r2) opts) [] =
     ((Malformed, scope_stderr, Some (ToolExecutionFailed ''exit status 1'' scope_stderr)),
      [Gh (cmdArgs (env_scope a r1 r2) opts)])"
  using cmdArgs_take1 [of "env_scope a r1 r2" opts]
  by (simp add: gh_def env_scope_def)

lemma confirm_env_scope: "confirm (env_scope a r1 r2) tr = a"
  by (simp add: env_scope_def)

lemma ghWithInput_env_scope:
  "ghWithInput (env_scope a r1 r2) [''auth'', ''refresh'', ''-s'', ''user''] tr =
     (case r1 of NotFound e \<Rightarrow> Some (ToolNotFound e)
      | Exited None sout eout \<Rightarrow> None
      | Exited (Some e) sout eout \<Rightarrow> Some (ToolExecutionFailedInteractive e),
      tr @ [GhWithInput [''auth'', ''refresh'', ''-s'', ''user'']])"
  by (simp add: ghWithInput_def env_scope_def)

lemma gh_env_scope_retry:
  "tr \<noteq> [] \<Longrightarrow>
   gh (env_scope a r1 r2) (cmdArgs (env_scope a r1 r2) opts) tr =
     (case r2 of
        NotFound e \<Rightarrow> (Malformed, [], Some (ToolNotFound e))
      | Exited None sout eout \<Rightarrow> (sout, eout, None)
      | Exited (Some e) sout eout \<Rightarrow> (sout, eout, Some (ToolExecutionFailed e eout)),
      tr @ [Gh (cmdArgs (env_scope a r1 r2) opts)])"
  using cmdArgs_take1 [of "env_scope a r1 r2" opts]
  by (simp add: gh_def env_scope_def)

subsection \<open>The paths through \<open>runSet\<close>\<close>

lemma runSet_decode_fst:
  "unmarshal_set out = Inr resp \<Longrightarrow>
   fst (runSet_decode E opts out tr) =
     (if Emoji resp = set_emoji opts then None else Some VerificationFailed)"
  by (simp add: runSet_decode_def)

lemma runSet_decode_gh_calls: "gh_calls (snd (runSet_decode E opts out tr)) = gh_calls tr"
  by (simp add: runSet_decode_def gh_calls_append split: sum.splits)

lemma runSet_decode_trace: "\<exists>ps. snd (runSet_decode E opts out tr) = tr @ ps"
  by (simp add: runSet_decode_def split: sum.splits)

lemma runSet_success:
  assumes "gh E (cmdArgs E opts) tr = ((out, eout, None), tr1)"
  shows "runSet E opts tr = runSet_decode E opts out (tr @ [Gh (cmdArgs E opts)])"
  using assms gh_result [OF assms] by (simp add: runSet_def)

lemma runSet_fatal:
  assumes "gh E (cmdArgs E opts) tr = ((out, eout, Some err), tr1)"
      and "\<not> strings_Contains eout scope_marker"
  shows "runSet E opts tr = (Some err, tr @ [Gh (cmdArgs E opts)])"
  using assms gh_result [OF assms(1)] by (simp add: runSet_def)

lemma runSet_scope:
  assumes "gh E (cmdArgs E opts) tr = ((out, eout, Some err), tr1)"
      and "strings_Contains eout scope_marker"
  shows "runSet E opts tr =
     (case confirm E (tr @ [Gh (cmdArgs E opts), Println scope_notice]) of
        Inl e \<Rightarrow> (Some (PromptFailed e),
                  tr @ [Gh (cmdArgs E opts), Println scope_notice, AskOne question])
      | Inr answer \<Rightarrow>
          if \<not> answer then (None, tr @ [Gh (cmdArgs E opts), Println scope_notice, AskOne question])
          else
            (case ghWithInput E [''auth'', ''refresh'', ''-s'', ''user'']
                    (tr @ [Gh (cmdArgs E opts), Println scope_notice, AskOne question]) of
               (Some e, tr4) \<Rightarrow> (Some e, tr4)
             | (None, tr4) \<Rightarrow>
                 (case gh E (cmdArgs E opts) tr4 of
                    ((out', stderr', Some e), tr5) \<Rightarrow> (Some e, tr5)
                  | ((out', stderr', None), tr5) \<Rightarrow> runSet_decode E opts out' tr5)))"
  using assms gh_result [OF assms(1)]
  by (auto simp: runSet_def Let_def split: sum.splits prod.splits option.splits)

lemma runSet_nth: "snd (runSet E opts tr) ! length tr = Gh (cmdArgs E opts)"
proof -
  let ?C = "cmdArgs E opts"
  obtain out eout err tr1 where g: "gh E ?C tr = ((out, eout, err), tr1)"
    by (metis prod_cases3 surj_pair)
  show ?thesis
  proof (cases err)
    case None
    obtain ps where "snd (runSet_decode E opts out (tr @ [Gh ?C])) = (tr @ [Gh ?C]) @ ps"
      using runSet_decode_trace by blast
    with g None show ?thesis by (simp add: runSet_success nth_append)
  next
    case (Some e)
    show ?thesis
    proof (cases "strings_Contains eout scope_marker")
      case False
      with g Some show ?thesis by (simp add: runSet_fatal)
    next
      case True
      let ?tr3 = "tr @ [Gh ?C, Println scope_notice, AskOne question]"
      let ?R = "[''auth'', ''refresh'', ''-s'', ''user'']"
      obtain r4 tr4 where w: "ghWithInput E ?R ?tr3 = (r4, tr4)" by (cases "ghWithInput E ?R ?tr3")
      then have tr4: "tr4 = ?tr3 @ [GhWithInput ?R]" using ghWithInput_trace [of E ?R ?tr3] by simp
      obtain o5 s5 e5 tr5 where g5: "gh E ?C tr4 = ((o5, s5, e5), tr5)"
        by (metis prod_cases3 surj_pair)
      then have tr5: "tr5 = tr4 @ [Gh ?C]" by (rule gh_result)
      obtain ps where ps: "snd (runSet_decode E opts o5 tr5) = tr5 @ ps"
        using runSet_decode_trace by blast
      from g Some True have "runSet E opts tr = (case confirm E (tr @ [Gh ?C, Println scope_notice]) of
        Inl e \<Rightarrow> (Some (PromptFailed e), ?tr3)
      | Inr answer \<Rightarrow>
          if \<not> answer then (None, ?tr3)
          else
            (case ghWithInput E ?R ?tr3 of
               (Some e, tr4) \<Rightarrow> (Some e, tr4)
             | (None, tr4) \<Rightarrow>
                 (case gh E ?C tr4 of
                    ((out', stderr', Some e), tr5) \<Rightarrow> (Some e, tr5)
                  | ((out', stderr', None), tr5) \<Rightarrow> runSet_decode E opts out' tr5)))"
        by (simp add: runSet_scope)
      with w tr4 g5 tr5 ps show ?thesis
        by (auto simp: nth_append split: sum.splits option.splits)
    qed
  qed
qed

lemma time_Add_instant:
  assumes "0 <s d" and "0 \<le> nsec t" and "nsec t < 1000000000"
  shows "instant (time_Add t d) = instant t + sint d \<and>
         0 \<le> nsec (time_Add t d) \<and> nsec (time_Add t d) < 1000000000 \<and>
         loc (time_Add t d) = loc t"
proof -
  have pos: "0 < sint d" using assms(1) by (simp add: word_sless_alt)
  define q where "q = sint d div 1000000000"
  define r where "r = sint d mod 1000000000"
  have d: "sint d = 1000000000 * q + r" and r: "0 \<le> r" "r < 1000000000"
    by (simp_all add: q_def r_def)
  have tq: "tquot (sint d) 1000000000 = q" using pos by (simp add: tquot_def q_def)
  have tr: "trem (sint d) 1000000000 = r"
    using pos by (simp add: trem_def tquot_def r_def minus_mult_div_eq_mod)
  show ?thesis
    unfolding time_Add_def tq tr Let_def
    using assms(2,3) r d by (simp add: instant_def)
qed

lemma format_t0_30m: "time_Format (time_Add t0 1800000000000) = ''2023-11-14T15:43:20-0700''"
  by code_simp

subsection \<open>The calendar\<close>

lemma cycles:
  fixes d0 :: int
  assumes d1_def: "d1 = d0 mod 146097"
      and n100_def: "n100 = min 3 (d1 div 36524)"
      and d2_def: "d2 = d1 - 36524 * n100"
      and n4_def: "n4 = d2 div 1461"
      and d3_def: "d3 = d2 mod 1461"
      and n1_def: "n1 = min 3 (d3 div 365)"
      and doy_def: "doy = d3 - 365 * n1"
  shows "0 \<le> n100" "n100 \<le> 3" "0 \<le> n4" "n4 \<le> 24" "0 \<le> n1" "n1 \<le> 3"
    "0 \<le> doy" "doy \<le> 365"
    "doy = 365 \<longrightarrow> n1 = 3 \<and> (n4 = 24 \<longrightarrow> n100 = 3)"
    "d0 = 146097 * (d0 div 146097) + 36524 * n100 + 1461 * n4 + 365 * n1 + doy"
proof -
  have d1: "0 \<le> d1" "d1 < 146097" by (simp_all add: d1_def)
  show n100: "0 \<le> n100" "n100 \<le> 3" using d1 by (simp_all add: n100_def)
  have d2: "0 \<le> d2" "d2 \<le> 36524" "n100 < 3 \<longrightarrow> d2 < 36524"
    using d1 unfolding d2_def n100_def by (auto simp: min_def) 
  show n4: "0 \<le> n4" "n4 \<le> 24" using d2 by (simp_all add: n4_def) 
  have d3: "0 \<le> d3" "d3 < 1461" by (simp_all add: d3_def)
  show n1: "0 \<le> n1" "n1 \<le> 3" using d3 by (simp_all add: n1_def)
  show doy: "0 \<le> doy" "doy \<le> 365" using d3 unfolding doy_def n1_def by (auto simp: min_def)
  have d2eq: "d2 = 1461 * n4 + d3" by (simp add: n4_def d3_def)
  show "doy = 365 \<longrightarrow> n1 = 3 \<and> (n4 = 24 \<longrightarrow> n100 = 3)"
    using d3 d2 d2eq n100 unfolding doy_def n1_def by (auto simp: min_def)
  show "d0 = 146097 * (d0 div 146097) + 36524 * n100 + 1461 * n4 + 365 * n1 + doy"
  proof -
    have "d0 = 146097 * (d0 div 146097) + d1" by (simp add: d1_def)
    with d2eq show ?thesis by (simp add: doy_def d2_def)
  qed
qed

lemma div_step:
  fixes y k :: int
  assumes "0 < k"
  shows "y div k = (y - 1) div k + (if y mod k = 0 then 1 else 0)"
proof (cases "y mod k = 0")
  case True
  have "y = k * (y div k) + y mod k" by simp
  with True have "y - 1 = k * (y div k - 1) + (k - 1)" by (simp add: algebra_simps)
  from int_div_pos_eq [OF this] assms have "(y - 1) div k = y div k - 1" by simp
  with True show ?thesis by simp
next
  case False
  have r: "0 \<le> y mod k" "y mod k < k" using assms by simp_all
  have "y = k * (y div k) + y mod k" by simp
  then have "y - 1 = k * (y div k) + (y mod k - 1)" by simp
  from int_div_pos_eq [OF this] r False have "(y - 1) div k = y div k" by simp
  with False show ?thesis by simp
qed

lemma leap_count:
  fixes a a' b b' c c' :: int
  assumes "a = a' + (if p4 then 1 else 0)" "b = b' + (if p100 then 1 else 0)"
    "c = c' + (if p400 then 1 else 0)" "p400 \<Longrightarrow> p100" "p100 \<Longrightarrow> p4"
  shows "a - b + c = a' - b' + c' + (if p4 \<and> (\<not> p100 \<or> p400) then 1 else 0)"
proof -
  consider "p400" "p100" "p4" | "\<not> p400" "p100" "p4" | "\<not> p400" "\<not> p100" "p4"
    | "\<not> p400" "\<not> p100" "\<not> p4"
    using assms(4,5) by blast
  then show ?thesis
    by cases (simp_all add: assms(1-3))
qed

lemma leaps_step: "leaps_upto y = leaps_upto (y - 1) + (if leap y then 1 else 0)"
proof -
  have dv: "(100::int) dvd 400" "(4::int) dvd 100" by simp_all
  have d1: "y mod 100 = 0" if "y mod 400 = 0"
    using that dv(1) by (meson dvd_trans mod_0_imp_dvd dvd_imp_mod_0)
  have d2: "y mod 4 = 0" if "y mod 100 = 0"
    using that dv(2) by (meson dvd_trans mod_0_imp_dvd dvd_imp_mod_0)
  show ?thesis
    unfolding leaps_upto_def leap_def
    by (rule leap_count [OF div_step div_step div_step d1 d2]) simp_all
qed

lemma march_year:
  fixes n400 n100 n4 n1 :: int
  assumes "0 \<le> n100" "n100 \<le> 3" "0 \<le> n4" "n4 \<le> 24" "0 \<le> n1" "n1 \<le> 3"
  defines "Y \<equiv> 400 * n400 + 100 * n100 + 4 * n4 + n1"
  shows "365 * Y + leaps_upto Y = 146097 * n400 + 36524 * n100 + 1461 * n4 + 365 * n1"
    and "n1 = 3 \<Longrightarrow> (n4 = 24 \<longrightarrow> n100 = 3) \<Longrightarrow> leap (Y + 1)"
proof -
  have "Y = 4 * (100 * n400 + 25 * n100 + n4) + n1" by (simp add: Y_def)
  from int_div_pos_eq [OF this] assms(5,6)
  have q4: "Y div 4 = 100 * n400 + 25 * n100 + n4" by simp
  have "Y = 100 * (4 * n400 + n100) + (4 * n4 + n1)" by (simp add: Y_def)
  from int_div_pos_eq [OF this] assms(3-6)
  have q100: "Y div 100 = 4 * n400 + n100" by simp
  have "Y = 400 * n400 + (100 * n100 + 4 * n4 + n1)" by (simp add: Y_def)
  from int_div_pos_eq [OF this] assms(1-6)
  have q400: "Y div 400 = n400" by simp
  show "365 * Y + leaps_upto Y = 146097 * n400 + 36524 * n100 + 1461 * n4 + 365 * n1"
    by (simp add: leaps_upto_def q4 q100 q400) (simp add: Y_def)
  assume h: "n1 = 3" "n4 = 24 \<longrightarrow> n100 = 3"
  have e: "Y + 1 = 4 * (100 * n400 + 25 * n100 + n4 + 1) + 0" using h by (simp add: Y_def)
  from int_mod_pos_eq [OF e] have m4: "(Y + 1) mod 4 = 0" by simp
  show "leap (Y + 1)"
  proof (cases "n4 = 24")
    case True
    with h have "Y + 1 = 400 * (n400 + 1) + 0" by (simp add: Y_def)
    from int_mod_pos_eq [OF this] have "(Y + 1) mod 400 = 0" by simp
    with m4 show ?thesis by (simp add: leap_def)
  next
    case False
    with assms(3,4) have b: "0 < 4 * (n4 + 1)" "4 * (n4 + 1) < 100" by simp_all
    have "Y + 1 = 100 * (4 * n400 + n100) + 4 * (n4 + 1)" using h by (simp add: Y_def)
    from int_mod_pos_eq [OF this] b have "(Y + 1) mod 100 = 4 * (n4 + 1)" by simp
    with b m4 show ?thesis by (simp add: leap_def)
  qed
qed

lemma month_bounds:
  fixes doy mp :: int
  assumes "mp = (5 * doy + 2) div 153"
  shows "153 * mp \<le> 5 * doy + 2" "5 * doy + 2 < 153 * mp + 153"
proof -
  have "5 * doy + 2 = 153 * mp + (5 * doy + 2) mod 153" by (simp add: assms)
  moreover have "0 \<le> (5 * doy + 2) mod 153" "(5 * doy + 2) mod 153 < 153" by simp_all
  ultimately show "153 * mp \<le> 5 * doy + 2" "5 * doy + 2 < 153 * mp + 153" by linarith+
qed

lemma leaps_1969: "leaps_upto 1969 = 477"
  by (simp add: leaps_upto_def)

lemma civil_correct:
  assumes "civil z = (y, m, d)"
  shows "valid_date y m d \<and> days_from_civil y m d = z"
proof -
  define d0 where "d0 = z + 719468"
  define n400 where "n400 = d0 div 146097"
  define d1 where "d1 = d0 mod 146097"
  define n100 where "n100 = min 3 (d1 div 36524)"
  define d2 where "d2 = d1 - 36524 * n100"
  define n4 where "n4 = d2 div 1461"
  define d3 where "d3 = d2 mod 1461"
  define n1 where "n1 = min 3 (d3 div 365)"
  define doy where "doy = d3 - 365 * n1"
  define mp where "mp = (5 * doy + 2) div 153"
  define Y where "Y = 400 * n400 + 100 * n100 + 4 * n4 + n1"
  note c = cycles [OF d1_def n100_def d2_def n4_def d3_def n1_def doy_def]
  define M where "M = (if mp < 10 then mp + 3 else mp - 9)"
  define D where "D = doy - (153 * mp + 2) div 5 + 1"
  have "civil z = (Y + (if M \<le> 2 then 1 else 0), M, D)"
    unfolding civil_def Let_def M_def D_def Y_def mp_def doy_def n1_def d3_def n4_def d2_def
      n100_def d1_def n400_def d0_def ..
  with assms have "(y, m, d) = (Y + (if M \<le> 2 then 1 else 0), M, D)"
    by (rule trans [OF sym])
  then have "y = Y + (if M \<le> 2 then 1 else 0)" "m = M" "d = D"
    by blast+
  then have
    y: "y = Y + (if m \<le> 2 then 1 else 0)" and
    m: "m = (if mp < 10 then mp + 3 else mp - 9)" and
    d: "d = doy - (153 * mp + 2) div 5 + 1"
    by (simp_all only: M_def D_def)
  have total: "z = 365 * Y + leaps_upto Y + doy - 719468"
    using c(10) march_year(1) [OF c(1-6), of n400]
    by (simp add: Y_def n400_def d0_def)
  have feb29: "leap (Y + 1)" if "doy = 365"
    using march_year(2) [OF c(1-6), of n400] c(9) that by (simp add: Y_def)
  note mb = month_bounds [OF mp_def]
  have "0 \<le> mp" "mp \<le> 11" using mb c(7,8) by linarith+
  then have "mp = 0 \<or> mp = 1 \<or> mp = 2 \<or> mp = 3 \<or> mp = 4 \<or> mp = 5 \<or> mp = 6
    \<or> mp = 7 \<or> mp = 8 \<or> mp = 9 \<or> mp = 10 \<or> mp = 11"
    by arith
  then consider "mp = 0" | "mp = 1" | "mp = 2" | "mp = 3" | "mp = 4" | "mp = 5" | "mp = 6"
    | "mp = 7" | "mp = 8" | "mp = 9" | "mp = 10" | "mp = 11"
    by blast
  then show ?thesis
  proof cases
    case 1
    then have f: "m = 3" "y = Y" "d = doy + 1" "0 \<le> doy" "doy \<le> 30"
      using m d y mb c(7) by simp_all
    show ?thesis
      using total leaps_step [of Y] f
      by (simp add: valid_date_def days_in_month_def days_from_civil_def days_before_year_def
          days_before_month_def leaps_1969)
  next
    case 2
    then have f: "m = 4" "y = Y" "d = doy - 30" "31 \<le> doy" "doy \<le> 60"
      using m d y mb by simp_all
    show ?thesis
      using total leaps_step [of Y] f
      by (simp add: valid_date_def days_in_month_def days_from_civil_def days_before_year_def
          days_before_month_def leaps_1969)
  next
    case 3
    then have f: "m = 5" "y = Y" "d = doy - 60" "61 \<le> doy" "doy \<le> 91"
      using m d y mb by simp_all
    show ?thesis
      using total leaps_step [of Y] f
      by (simp add: valid_date_def days_in_month_def days_from_civil_def days_before_year_def
          days_before_month_def leaps_1969)
  next
    case 4
    then have f: "m = 6" "y = Y" "d = doy - 91" "92 \<le> doy" "doy \<le> 121"
      using m d y mb by simp_all
    show ?thesis
      using total leaps_step [of Y] f
      by (simp add: valid_date_def days_in_month_def days_from_civil_def days_before_year_def
          days_before_month_def leaps_1969)
  next
    case 5
    then have f: "m = 7" "y = Y" "d = doy - 121" "122 \<le> doy" "doy \<le> 152"
      using m d y mb by simp_all
    show ?thesis
      using total leaps_step [of Y] f
      by (simp add: valid_date_def days_in_month_def days_from_civil_def days_before_year_def
          days_before_month_def leaps_1969)
  next
    case 6
    then have f: "m = 8" "y = Y" "d = doy - 152" "153 \<le> doy" "doy \<le> 183"
      using m d y mb by simp_all
    show ?thesis
      using total leaps_step [of Y] f
      by (simp add: valid_date_def days_in_month_def days_from_civil_def days_before_year_def
          days_before_month_def leaps_1969)
  next
    case 7
    then have f: "m = 9" "y = Y" "d = doy - 183" "184 \<le> doy" "doy \<le> 213"
      using m d y mb by simp_all
    show ?thesis
      using total leaps_step [of Y] f
      by (simp add: valid_date_def days_in_month_def days_from_civil_def days_before_year_def
          days_before_month_def leaps_1969)
  next
    case 8
    then have f: "m = 10" "y = Y" "d = doy - 213" "214 \<le> doy" "doy \<le> 244"
      using m d y mb by simp_all
    show ?thesis
      using total leaps_step [of Y] f
      by (simp add: valid_date_def days_in_month_def days_from_civil_def days_before_year_def
          days_before_month_def leaps_1969)
  next
    case 9
    then have f: "m = 11" "y = Y" "d = doy - 244" "245 \<le> doy" "doy \<le> 274"
      using m d y mb by simp_all
    show ?thesis
      using total leaps_step [of Y] f
      by (simp add: valid_date_def days_in_month_def days_from_civil_def days_before_year_def
          days_before_month_def leaps_1969)
  next
    case 10
    then have f: "m = 12" "y = Y" "d = doy - 274" "275 \<le> doy" "doy \<le> 305"
      using m d y mb by simp_all
    show ?thesis
      using total leaps_step [of Y] f
      by (simp add: valid_date_def days_in_month_def days_from_civil_def days_before_year_def
          days_before_month_def leaps_1969)
  next
    case 11
    then have f: "m = 1" "y = Y + 1" "d = doy - 305" "306 \<le> doy" "doy \<le> 336"
      using m d y mb by simp_all
    show ?thesis
      using total f
      by (simp add: valid_date_def days_in_month_def days_from_civil_def days_before_year_def
          days_before_month_def leaps_1969)
  next
    case 12
    then have f: "m = 2" "y = Y + 1" "d = doy - 336" "337 \<le> doy"
      using m d y mb by simp_all
    have "d \<le> days_in_month y m"
    proof (cases "doy = 365")
      case True
      with feb29 f show ?thesis by (simp add: days_in_month_def)
    next
      case False
      with c(8) f show ?thesis by (simp add: days_in_month_def)
    qed
    then show ?thesis
      using total f
      by (simp add: valid_date_def days_from_civil_def days_before_year_def
          days_before_month_def leaps_1969)
  qed
qed

lemma days_in_month_le: "days_in_month y m \<le> 31"
  by (simp add: days_in_month_def)

subsection \<open>The layout of a formatted time\<close>

lemma digit_0: "digit 0 = CHR ''0''"
  by code_simp

lemma utoa_1: "n < 10 \<Longrightarrow> utoa n = [digit n]"
  by (simp add: utoa.simps digit_def)

lemma utoa_2: "10 \<le> n \<Longrightarrow> n < 100 \<Longrightarrow> utoa n = [digit (n div 10), digit (n mod 10)]"
  by (subst utoa.simps) (simp add: utoa_1 digit_def)

lemma utoa_3:
  "100 \<le> n \<Longrightarrow> n < 1000 \<Longrightarrow>
   utoa n = [digit (n div 100), digit (n div 10 mod 10), digit (n mod 10)]"
  by (subst utoa.simps) (simp add: utoa_2 digit_def div_mult2_eq [symmetric])

lemma utoa_4:
  "1000 \<le> n \<Longrightarrow> n < 10000 \<Longrightarrow>
   utoa n = [digit (n div 1000), digit (n div 100 mod 10), digit (n div 10 mod 10),
             digit (n mod 10)]"
  by (subst utoa.simps) (simp add: utoa_3 digit_def div_mult2_eq [symmetric])

lemma replicate_small:
  "replicate 3 c = [c, c, c]" "replicate 2 c = [c, c]"
  by (simp_all add: numeral_3_eq_3 numeral_2_eq_2)

lemma appendInt_two:
  assumes "0 \<le> x" and "x < 100"
  shows "appendInt x 2 = two x"
proof (cases "x < 10")
  case True
  with assms have "nat x < 10" by simp
  then show ?thesis
    using assms by (simp add: appendInt_def two_def utoa_1 digit_0 [symmetric] replicate_small)
next
  case False
  with assms have "10 \<le> nat x" "nat x < 100" by simp_all
  then show ?thesis
    using assms by (simp add: appendInt_def two_def utoa_2)
qed

lemma appendInt_four:
  assumes "0 \<le> x" and "x \<le> 9999"
  shows "appendInt x 4 = four x"
proof -
  have "nat x < 10 \<or> (10 \<le> nat x \<and> nat x < 100) \<or> (100 \<le> nat x \<and> nat x < 1000)
      \<or> (1000 \<le> nat x \<and> nat x < 10000)"
    using assms by linarith
  then consider "nat x < 10" | "10 \<le> nat x" "nat x < 100" | "100 \<le> nat x" "nat x < 1000"
    | "1000 \<le> nat x" "nat x < 10000"
    by blast
  then show ?thesis
  proof cases
    case 1
    then show ?thesis
      using assms by (simp add: appendInt_def four_def utoa_1 digit_0 [symmetric] replicate_small)
  next
    case 2
    then show ?thesis
      using assms by (simp add: appendInt_def four_def utoa_2 digit_0 [symmetric] replicate_small)
  next
    case 3
    then show ?thesis
      using assms by (simp add: appendInt_def four_def utoa_3 digit_0 [symmetric] replicate_small)
  next
    case 4
    then show ?thesis
      using assms by (simp add: appendInt_def four_def utoa_4)
  qed
qed

lemma zone_minutes:
  fixes off :: int
  shows "\<bar>tquot off 60\<bar> = \<bar>off\<bar> div 60" and "tquot off 60 < 0 \<longleftrightarrow> off \<le> - 60"
proof -
  show "\<bar>tquot off 60\<bar> = \<bar>off\<bar> div 60"
    by (cases "off < 0") (simp_all add: tquot_def div_int_pos_iff)
  show "tquot off 60 < 0 \<longleftrightarrow> off \<le> - 60"
  proof (cases "off < 0")
    case True
    have "0 < (- off) div 60 \<longleftrightarrow> 60 \<le> - off"
      using True by (simp add: pos_imp_zdiv_pos_iff)
    with True show ?thesis by (auto simp: tquot_def)
  next
    case False
    then show ?thesis by (simp add: tquot_def div_int_pos_iff)
  qed
qed

lemma time_of_day:
  fixes local :: int
  defines "sod \<equiv> local mod 86400"
  shows "0 \<le> sod div 3600" "sod div 3600 < 24"
    "0 \<le> sod mod 3600 div 60" "sod mod 3600 div 60 < 60"
    "0 \<le> sod mod 60" "sod mod 60 < 60"
    "(local div 86400) * 86400 + (sod div 3600) * 3600 + (sod mod 3600 div 60) * 60 + sod mod 60
       = local"
proof -
  have s: "0 \<le> sod" "sod < 86400" by (simp_all add: sod_def)
  show "0 \<le> sod div 3600" "sod div 3600 < 24" using s by (simp_all add: div_int_pos_iff)
  have r: "0 \<le> sod mod 3600" "sod mod 3600 < 3600" by simp_all
  show "0 \<le> sod mod 3600 div 60" "sod mod 3600 div 60 < 60"
    using r by (simp_all add: div_int_pos_iff)
  show "0 \<le> sod mod 60" "sod mod 60 < 60" by simp_all
  have a: "sod = (sod div 3600) * 3600 + sod mod 3600" by simp
  have b: "sod mod 3600 = (sod mod 3600 div 60) * 60 + sod mod 3600 mod 60" by simp
  have c: "sod mod 3600 mod 60 = sod mod 60"
    by (rule mod_mod_cancel) simp
  have d: "local = (local div 86400) * 86400 + sod" by (simp add: sod_def)
  show "(local div 86400) * 86400 + (sod div 3600) * 3600 + (sod mod 3600 div 60) * 60 + sod mod 60
       = local"
    using a b c d by linarith
qed

lemma time_Format_layout:
  assumes "\<bar>loc t (unixSec t)\<bar> < 360000"
  shows "\<exists>y m d hh mi ss yt.
      time_Format t =
        yt @ ''-'' @ two m @ ''-'' @ two d @ ''T'' @ two hh @ '':'' @ two mi @ '':'' @ two ss
          @ (if loc t (unixSec t) \<le> - 60 then ''-'' else ''+'')
          @ two (\<bar>loc t (unixSec t)\<bar> div 3600) @ two (\<bar>loc t (unixSec t)\<bar> div 60 mod 60) \<and>
      (0 \<le> y \<and> y \<le> 9999 \<longrightarrow> yt = four y) \<and>
      valid_date y m d \<and> 0 \<le> hh \<and> hh < 24 \<and> 0 \<le> mi \<and> mi < 60 \<and> 0 \<le> ss \<and> ss < 60 \<and>
      days_from_civil y m d * 86400 + hh * 3600 + mi * 60 + ss =
        unixSec t + loc t (unixSec t)"
proof -
  define off where "off = loc t (unixSec t)"
  define local where "local = unixSec t + off"
  define sod where "sod = local mod 86400"
  obtain y m d where civ: "civil (local div 86400) = (y, m, d)"
    by (cases "civil (local div 86400)")
  from civil_correct [OF civ] have v: "valid_date y m d"
    and day: "days_from_civil y m d = local div 86400" by simp_all
  from v have m: "0 \<le> m" "m < 100" and d: "0 \<le> d" "d < 100"
    using days_in_month_le [of y m] by (simp_all add: valid_date_def)
  note tod = time_of_day [of local, folded sod_def]
  have z1: "0 \<le> \<bar>off\<bar> div 60 div 60" "\<bar>off\<bar> div 60 div 60 < 100"
    using assms by (simp_all add: off_def div_int_pos_iff)
  have z2: "0 \<le> \<bar>off\<bar> div 60 mod 60" "\<bar>off\<bar> div 60 mod 60 < 60" by simp_all
  have z3: "\<bar>off\<bar> div 60 div 60 = \<bar>off\<bar> div 3600"
    by (simp add: div_mult2_eq [symmetric])
  have e1: "appendInt m 2 = two m" by (rule appendInt_two [OF m])
  have e2: "appendInt d 2 = two d" by (rule appendInt_two [OF d])
  have e3: "appendInt (sod div 3600) 2 = two (sod div 3600)"
    using tod(1,2) by (intro appendInt_two) simp_all
  have e4: "appendInt (sod mod 3600 div 60) 2 = two (sod mod 3600 div 60)"
    using tod(3,4) by (intro appendInt_two) simp_all
  have e5: "appendInt (sod mod 60) 2 = two (sod mod 60)"
    using tod(5,6) by (intro appendInt_two) simp_all
  have e6: "appendInt (\<bar>off\<bar> div 60 div 60) 2 = two (\<bar>off\<bar> div 3600)"
    using appendInt_two [OF z1] by (simp only: z3)
  have e7: "appendInt (\<bar>off\<bar> div 60 mod 60) 2 = two (\<bar>off\<bar> div 60 mod 60)"
    using z2 by (intro appendInt_two) simp_all
  have fmt: "time_Format t =
      appendInt y 4 @ ''-'' @ two m @ ''-'' @ two d @ ''T'' @ two (sod div 3600) @ '':''
        @ two (sod mod 3600 div 60) @ '':'' @ two (sod mod 60)
        @ (if off \<le> - 60 then ''-'' else ''+'')
        @ two (\<bar>off\<bar> div 3600) @ two (\<bar>off\<bar> div 60 mod 60)"
    unfolding time_Format_def Let_def off_def [symmetric] local_def [symmetric]
      sod_def [symmetric] civ prod.case zone_minutes e1 e2 e3 e4 e5 e6 e7 ..
  have inst: "days_from_civil y m d * 86400 + (sod div 3600) * 3600
      + (sod mod 3600 div 60) * 60 + sod mod 60 = unixSec t + off"
    using tod(7) by (simp add: day local_def)
  have yr: "0 \<le> y \<and> y \<le> 9999 \<longrightarrow> appendInt y 4 = four y"
    using appendInt_four by blast
  show ?thesis
    unfolding off_def [symmetric]
    by (rule exI [of _ y], rule exI [of _ m], rule exI [of _ d], rule exI [of _ "sod div 3600"],
        rule exI [of _ "sod mod 3600 div 60"], rule exI [of _ "sod mod 60"],
        rule exI [of _ "appendInt y 4"])
       (intro conjI, (rule fmt yr v tod inst)+)
qed

subsection \<open>The calls of the read path\<close>

lemma apiTeam_trace: "snd (apiTeam E login slug tr) = tr @ [Gh (team_args login slug)]"
proof -
  obtain sout eout err tr1 where
    g: "gh E (team_args login slug) tr = ((sout, eout, err), tr1)"
    by (metis prod_cases3 surj_pair)
  then have "tr1 = tr @ [Gh (team_args login slug)]"
    using gh_trace [of E "team_args login slug" tr] by simp
  with g show ?thesis
    by (cases err) (auto simp: apiTeam_def team_args_def Let_def split: sum.splits)
qed



lemma apiStatus_trace:
  "snd (apiStatus E login tr) = tr @ [Gh [''api'', ''graphql'', ''-f'', ''query='' @ status_query login]]"
proof -
  let ?args = "[''api'', ''graphql'', ''-f'', ''query='' @ status_query login]"
  obtain sout eout err tr1 where g: "gh E ?args tr = ((sout, eout, err), tr1)"
    by (metis prod_cases3 surj_pair)
  then have "tr1 = tr @ [Gh ?args]"
    using gh_trace [of E ?args tr] by simp
  with g show ?thesis
    by (cases err) (auto simp: apiStatus_def Let_def)
qed

lemma apiStatus_success:
  assumes "gh E (status_args login) tr = ((sout, eout, None), tr1)"
  shows "apiStatus E login tr = (apiStatus_decode (status_key login) sout, tr @ [Gh (status_args login)])"
  using assms gh_result [OF assms] by (simp add: apiStatus_def status_args_def Let_def)

lemma print_nodes_append: "\<exists>ps. print_nodes E ns tr = tr @ ps \<and> (\<forall>p \<in> set ps. \<exists>s. p = Println s)"
proof (induction ns arbitrary: tr)
  case Nil
  show ?case by simp
next
  case (Cons n ns)
  let ?tr = "tr @ [Println (ReplaceAll E
          (Login (User n) @ '': '' @ Emoji n @ '' '' @ Message n @ '' ''
             @ availability (IndicatesLimitedAvailability n)))]"
  from Cons.IH [of ?tr] obtain ps where
    "print_nodes E ns ?tr = ?tr @ ps" "\<forall>p \<in> set ps. \<exists>s. p = Println s" by blast
  then show ?case by auto
qed

lemma runGetTeam_nth:
  assumes "strings_Split (get_Login opts) ''/'' = org # slug # rest"
  shows "snd (runGetTeam E opts tr) ! length tr = Gh (team_args org slug)"
proof -
  obtain r tr1 where a: "apiTeam E org slug tr = (r, tr1)" by (cases "apiTeam E org slug tr")
  then have tr1: "tr1 = tr @ [Gh (team_args org slug)]"
    using apiTeam_trace [of E org slug tr] by simp
  show ?thesis
  proof (cases r)
    case (Inl e)
    with a assms tr1 show ?thesis by (simp add: runGetTeam_def)
  next
    case (Inr ns)
    obtain ps where "print_nodes E ns tr1 = tr1 @ ps" using print_nodes_append by blast
    with Inr a assms tr1 show ?thesis by (simp add: runGetTeam_def nth_append)
  qed
qed

lemma runGetUser_nth:
  "snd (runGetUser E opts tr) ! length tr =
     Gh [''api'', ''graphql'', ''-f'', ''query='' @ status_query (get_Login opts)]"
proof -
  obtain r tr1 where a: "apiStatus E (get_Login opts) tr = (r, tr1)"
    by (cases "apiStatus E (get_Login opts) tr")
  then have "tr1 = tr @ [Gh [''api'', ''graphql'', ''-f'', ''query='' @ status_query (get_Login opts)]]"
    using apiStatus_trace [of E "get_Login opts" tr] by simp
  with a show ?thesis by (cases r) (simp_all add: runGetUser_def nth_append)
qed

subsection \<open>Decoding concrete documents\<close>

lemma status_keys:
  "fieldMatch ''indicatesLimitedAvailability'' ''IndicatesLimitedAvailability''"
  "\<not> fieldMatch ''message'' ''IndicatesLimitedAvailability''"
  "fieldMatch ''message'' ''Message''"
  "\<not> fieldMatch ''emoji'' ''IndicatesLimitedAvailability''"
  "\<not> fieldMatch ''emoji'' ''Message''"
  "fieldMatch ''emoji'' ''Emoji''"
  by code_simp+

lemma unmarshal_set_status_json:
  "unmarshal_set (Doc (set_doc (status_json l m e))) =
     Inr \<lparr>IndicatesLimitedAvailability = l, Message = m, Emoji = e\<rparr>"
proof -
  have f: "fieldMatch ''data'' ''Data''" "fieldMatch ''changeUserStatus'' ''ChangeUserStatus''"
    "fieldMatch ''status'' ''Status''"
    "fieldMatch ''indicatesLimitedAvailability'' ''IndicatesLimitedAvailability''"
    "\<not> fieldMatch ''message'' ''IndicatesLimitedAvailability''"
    "fieldMatch ''message'' ''Message''"
    "\<not> fieldMatch ''emoji'' ''IndicatesLimitedAvailability''"
    "\<not> fieldMatch ''emoji'' ''Message''"
    "fieldMatch ''emoji'' ''Emoji''"
    by code_simp+
  show ?thesis
    by (simp add: unmarshal_set_def set_doc_def status_json_def dec_field_def dec_struct_def
        dec_status_def status_member_def dec_bool_def dec_string_def zero_status_def f)
qed

lemma apiStatus_decode_both:
  "apiStatus_decode ''viewer'' (Doc both_doc) =
     Inr \<lparr>IndicatesLimitedAvailability = False, Message = ''mine'', Emoji = '':wave:''\<rparr>"
  "apiStatus_decode ''user'' (Doc both_doc) =
     Inr \<lparr>IndicatesLimitedAvailability = True, Message = ''theirs'', Emoji = '':zzz:''\<rparr>"
  by code_simp+




subsection \<open>The decoder of the single-user response against the shape of the document\<close>

lemma isl_case_Inr [simp]:
  "isl (case r of Inl e \<Rightarrow> Inl e | Inr x \<Rightarrow> Inr (f x)) = isl r"
  by (cases r) simp_all

lemma dec_string_isl: "isl (dec_string c j) \<longleftrightarrow> \<not> string_or_null j"
  by (cases j) (simp_all add: dec_string_def string_or_null_def)

lemma dec_bool_isl: "isl (dec_bool c j) \<longleftrightarrow> \<not> bool_or_null j"
  by (cases j) (simp_all add: dec_bool_def bool_or_null_def)

lemma status_member_isl: "isl (status_member st kv) \<longleftrightarrow> \<not> status_member_shaped kv"
  by (cases kv) (simp add: status_member_def status_member_shaped_def dec_string_isl dec_bool_isl)

lemma dec_members_isl:
  assumes "\<And>c kv. isl (f c kv) \<longleftrightarrow> \<not> P kv"
  shows "isl (dec_members f cur kvs) \<longleftrightarrow> \<not> list_all P kvs"
proof (induction kvs arbitrary: cur)
  case Nil
  show ?case by simp
next
  case (Cons kv kvs)
  show ?case
  proof (cases "f cur kv")
    case (Inl e)
    then have "\<not> P kv" using assms [of cur kv] by simp
    with Inl show ?thesis by simp
  next
    case (Inr c')
    then have "P kv" using assms [of cur kv] by auto
    with Inr Cons.IH [of c'] show ?thesis by simp
  qed
qed

lemma dec_status_isl: "isl (dec_status st j) \<longleftrightarrow> \<not> status_shaped j"
  by (cases j)
     (simp_all add: dec_status_def dec_struct_def status_shaped_def
        dec_members_isl [of status_member status_member_shaped, OF status_member_isl])

lemma dec_status_null: "dec_status st JNull = Inr st"
  by (simp add: dec_status_def dec_struct_def)

lemma map_member_isl: "isl (map_member d z m kv) \<longleftrightarrow> \<not> (\<not> isl (d z (snd kv)))"
  by (cases kv) (simp add: map_member_def)

lemma dec_members_map:
  assumes "list_all (\<lambda>kv. \<not> isl (d z (snd kv))) kvs"
  shows "dec_members (map_member d z) m kvs =
           Inr (\<lambda>k. case map_of (rev kvs) k of
                       None \<Rightarrow> m k
                     | Some v \<Rightarrow> Some (projr (d z v)))"
  using assms
proof (induction kvs arbitrary: m)
  case Nil
  show ?case by simp
next
  case (Cons kv kvs)
  obtain k v where kv: "kv = (k, v)" by (cases kv)
  from Cons.prems kv obtain x where x: "d z v = Inr x" by (cases "d z v") auto
  from Cons.prems have rest: "list_all (\<lambda>kv. \<not> isl (d z (snd kv))) kvs" by simp
  have "dec_members (map_member d z) m (kv # kvs) =
          dec_members (map_member d z) (m(k \<mapsto> x)) kvs"
    using kv x by (simp add: map_member_def)
  also have "\<dots> = Inr (\<lambda>k'. case map_of (rev kvs) k' of
                       None \<Rightarrow> (m(k \<mapsto> x)) k'
                     | Some v \<Rightarrow> Some (projr (d z v)))"
    by (rule Cons.IH [OF rest])
  also have "(\<lambda>k'. case map_of (rev kvs) k' of
                       None \<Rightarrow> (m(k \<mapsto> x)) k'
                     | Some v \<Rightarrow> Some (projr (d z v))) =
             (\<lambda>k'. case map_of (rev (kv # kvs)) k' of
                       None \<Rightarrow> m k'
                     | Some v \<Rightarrow> Some (projr (d z v)))"
    using kv x by (auto simp: fun_eq_iff map_add_def split: option.splits)
  finally show ?case .
qed

lemma dec_map_isl:
  assumes "\<And>v. isl (d z v) \<longleftrightarrow> \<not> P v"
  shows "isl (dec_map d z m j) \<longleftrightarrow> \<not> object_of P j"
proof -
  have "isl (map_member d z c kv) \<longleftrightarrow> \<not> P (snd kv)" for c kv
    using assms [of "snd kv"] by (simp add: map_member_isl)
  from dec_members_isl [of "map_member d z" "\<lambda>kv. P (snd kv)", OF this]
  show ?thesis by (cases j) (simp_all add: dec_map_def object_of_def)
qed

lemma dec_map_ok:
  assumes "\<And>v. isl (d z v) \<longleftrightarrow> \<not> P v" and "object_of P j"
  shows "dec_map d z Map.empty j = Inr (\<lambda>k. map_option (\<lambda>v. projr (d z v)) (member j k))"
proof (cases j)
  case (JObject kvs)
  with assms(2) have "list_all (\<lambda>kv. P (snd kv)) kvs" by (simp add: object_of_def)
  then have "list_all (\<lambda>kv. \<not> isl (d z (snd kv))) kvs" by (simp add: assms(1))
  from dec_members_map [of d z kvs Map.empty, OF this] JObject show ?thesis
    by (simp add: dec_map_def member_def fun_eq_iff split: option.splits)
qed (use assms(2) in \<open>simp_all add: dec_map_def member_def object_of_def\<close>)

lemma member_object_of:
  assumes "object_of P j" and "member j k = Some v"
  shows "P v"
proof (cases j)
  case (JObject kvs)
  with assms(2) have "(k, v) \<in> set kvs"
    by (auto simp: member_def dest: map_of_SomeD)
  with assms(1) JObject show ?thesis by (auto simp: object_of_def list_all_iff)
qed (use assms in \<open>simp_all add: member_def\<close>)

lemma level1_isl:
  "isl (dec_map dec_status zero_status m v) \<longleftrightarrow> \<not> object_of status_shaped v"
  by (rule dec_map_isl) (rule dec_status_isl)

lemma level2_isl:
  "isl (dec_map (dec_map dec_status zero_status) Map.empty m v) \<longleftrightarrow>
     \<not> object_of (object_of status_shaped) v"
  by (rule dec_map_isl) (rule level1_isl)

lemma unmarshal_status_isl: "isl (unmarshal_status (Doc j)) \<longleftrightarrow> \<not> response_shaped j"
  unfolding unmarshal_status_def response_shaped_def body.case
  by (rule dec_map_isl) (rule level2_isl)

lemma apiStatus_decode_shaped:
  assumes "response_shaped j"
  shows "apiStatus_decode key (Doc j) =
           (case status_at j key of
              None \<Rightarrow> Inl (DecodeError None)
            | Some v \<Rightarrow> Inr (projr (dec_status zero_status v)))"
proof -
  let ?D1 = "dec_map dec_status zero_status"
  let ?D2 = "dec_map ?D1 Map.empty"
  have top: "object_of (object_of (object_of status_shaped)) j"
    using assms by (simp add: response_shaped_def)
  have resp: "unmarshal_status (Doc j) =
      Inr (\<lambda>k. map_option (\<lambda>v. projr (?D2 Map.empty v)) (member j k))"
    using dec_map_ok [of ?D2 Map.empty "object_of (object_of status_shaped)" j, OF level2_isl top]
    by (simp add: unmarshal_status_def)
  show ?thesis
  proof (cases "member j ''data''")
    case None
    with resp show ?thesis
      by (simp add: apiStatus_decode_def index_map_def status_at_def)
  next
    case (Some d)
    from member_object_of [OF top Some] have dsh: "object_of (object_of status_shaped) d" .
    have dval: "?D2 Map.empty d =
        Inr (\<lambda>k. map_option (\<lambda>v. projr (?D1 Map.empty v)) (member d k))"
      by (rule dec_map_ok [of ?D1 Map.empty "object_of status_shaped" d, OF level1_isl dsh])
    show ?thesis
    proof (cases "member d key")
      case None
      with resp Some dval show ?thesis
        by (simp add: apiStatus_decode_def index_map_def status_at_def)
    next
      case u: (Some u)
      from member_object_of [OF dsh u] have ush: "object_of status_shaped u" .
      have uval: "?D1 Map.empty u =
          Inr (\<lambda>k. map_option (\<lambda>v. projr (dec_status zero_status v)) (member u k))"
        by (rule dec_map_ok [of dec_status zero_status status_shaped u, OF dec_status_isl ush])
      from resp Some dval u uval show ?thesis
        by (simp add: apiStatus_decode_def index_map_def status_at_def split: option.splits)
    qed
  qed
qed

lemma apiStatus_decode_unshaped:
  assumes "\<not> response_shaped j"
  shows "\<exists>e. apiStatus_decode key (Doc j) = Inl (DecodeError (Some e))"
proof -
  from assms have "isl (unmarshal_status (Doc j))" by (simp add: unmarshal_status_isl)
  then obtain e where "unmarshal_status (Doc j) = Inl e" by (cases "unmarshal_status (Doc j)") auto
  then show ?thesis by (simp add: apiStatus_decode_def)
qed

lemma apiStatus_decode_malformed:
  "apiStatus_decode key Malformed = Inl (DecodeError (Some SyntaxError))"
  by (simp add: apiStatus_decode_def unmarshal_status_def)

lemma apiStatus_decode_fails_iff:
  "isl (apiStatus_decode key b) \<longleftrightarrow>
     (case b of Malformed \<Rightarrow> True
      | Doc j \<Rightarrow> \<not> response_shaped j \<or> status_at j key = None)"
proof (cases b)
  case Malformed
  then show ?thesis by (simp add: apiStatus_decode_malformed)
next
  case (Doc j)
  show ?thesis
  proof (cases "response_shaped j")
    case True
    with Doc show ?thesis by (simp add: apiStatus_decode_shaped split: option.splits)
  next
    case False
    with Doc apiStatus_decode_unshaped [OF False, of key] show ?thesis by auto
  qed
qed

lemma apiStatus_decode_Inl:
  "apiStatus_decode key b = Inl err \<Longrightarrow> \<exists>e. err = DecodeError e"
  by (auto simp: apiStatus_decode_def split: sum.splits option.splits)

lemma decode_failed_apiStatus_decode:
  "decode_failed (apiStatus_decode key b) \<longleftrightarrow> isl (apiStatus_decode key b)"
proof (cases "apiStatus_decode key b")
  case (Inl err)
  then obtain e where "err = DecodeError e" using apiStatus_decode_Inl by blast
  with Inl show ?thesis by (simp add: decode_failed_def)
next
  case (Inr s)
  then show ?thesis by (simp add: decode_failed_def)
qed

lemma shaped_status_doc: "response_shaped (status_doc key (status_json l m e))"
  by (simp add: response_shaped_def status_doc_def status_json_def object_of_def
      status_shaped_def status_member_shaped_def bool_or_null_def string_or_null_def status_keys)

lemma status_at_status_doc: "status_at (status_doc k st) key = (if k = key then Some st else None)"
  by (simp add: status_at_def status_doc_def member_def)

lemma extensions_doc_decode:
  "apiStatus_decode ''user'' (Doc extensions_doc) = Inl (DecodeError (Some UnmarshalTypeError))"
  "apiStatus_decode ''user'' (Doc (status_doc ''user'' (JNumber ''5''))) =
     Inl (DecodeError (Some UnmarshalTypeError))"
  by code_simp+

lemma shaped_null_doc: "response_shaped (status_doc key JNull)"
  by (simp add: response_shaped_def status_doc_def object_of_def status_shaped_def)

lemma shaped_empty_user: "response_shaped (JObject [(''data'', JObject [(''user'', JObject [])])])"
  by (simp add: response_shaped_def object_of_def)

section \<open>The claims\<close>

subsection \<open>C1: recovery from a missing scope\<close>

text \<open>
  Claim C1, as amended. Let the first call of \<open>gh\<close> in \<open>runSet\<close> fail with a stderr that
  contains the missing-scope marker, and let the prompt be answered.
  \<^item> If the caller declines, \<open>runSet\<close> returns nil; the trace ends with the prompt, so the
    mutation was sent once and nothing else was run.
  \<^item> If the caller accepts, \<open>gh auth refresh -s user\<close> is run interactively. If that step
    fails, its error is returned and the mutation is not sent again.
  \<^item> If the caller accepts and the re-authentication succeeds, the same mutation is
    sent once more, and only once: the calls of \<open>gh\<close> are the mutation twice, whatever
    the second call does. If that second call fails, its error is returned at once and
    the trace ends there, also when the stderr holds the marker again.
\<close>

theorem scope_recovery:
  assumes "gh E (cmdArgs E opts) tr = ((out, eout, Some err), tr1)"
      and "strings_Contains eout scope_marker"
      and "confirm E (tr @ [Gh (cmdArgs E opts), Println scope_notice]) = Inr answer"
  shows
    "(\<not> answer \<longrightarrow>
        runSet E opts tr =
          (None, tr @ [Gh (cmdArgs E opts), Println scope_notice, AskOne question])) \<and>
     (answer \<and>
      fst (ghWithInput E [''auth'', ''refresh'', ''-s'', ''user'']
             (tr @ [Gh (cmdArgs E opts), Println scope_notice, AskOne question])) = Some e1 \<longrightarrow>
        runSet E opts tr =
          (Some e1, tr @ [Gh (cmdArgs E opts), Println scope_notice, AskOne question,
                          GhWithInput [''auth'', ''refresh'', ''-s'', ''user'']])) \<and>
     (answer \<and>
      fst (ghWithInput E [''auth'', ''refresh'', ''-s'', ''user'']
             (tr @ [Gh (cmdArgs E opts), Println scope_notice, AskOne question])) = None \<longrightarrow>
        gh_calls (snd (runSet E opts tr)) = gh_calls tr @ [cmdArgs E opts, cmdArgs E opts] \<and>
        (\<exists>ps. snd (runSet E opts tr) =
           tr @ [Gh (cmdArgs E opts), Println scope_notice, AskOne question,
                 GhWithInput [''auth'', ''refresh'', ''-s'', ''user''], Gh (cmdArgs E opts)] @ ps) \<and>
        (snd (snd (fst (gh E (cmdArgs E opts)
           (tr @ [Gh (cmdArgs E opts), Println scope_notice, AskOne question,
                  GhWithInput [''auth'', ''refresh'', ''-s'', ''user'']])))) = Some e2 \<longrightarrow>
           runSet E opts tr =
             (Some e2, tr @ [Gh (cmdArgs E opts), Println scope_notice, AskOne question,
                             GhWithInput [''auth'', ''refresh'', ''-s'', ''user''],
                             Gh (cmdArgs E opts)])))"
proof -
  let ?C = "cmdArgs E opts"
  let ?R = "[''auth'', ''refresh'', ''-s'', ''user'']"
  let ?tr3 = "tr @ [Gh ?C, Println scope_notice, AskOne question]"
  let ?tr4 = "tr @ [Gh ?C, Println scope_notice, AskOne question, GhWithInput ?R]"
  let ?tr5 = "tr @ [Gh ?C, Println scope_notice, AskOne question, GhWithInput ?R, Gh ?C]"
  note run = runSet_scope [OF assms(1,2), unfolded assms(3), simplified]
  obtain r4 t4 where w: "ghWithInput E ?R ?tr3 = (r4, t4)" by (cases "ghWithInput E ?R ?tr3")
  then have t4: "t4 = ?tr4" using ghWithInput_trace [of E ?R ?tr3] by simp
  obtain o5 s5 r5 t5 where g: "gh E ?C ?tr4 = ((o5, s5, r5), t5)"
    by (metis prod_cases3 surj_pair)
  then have t5: "t5 = ?tr5" using gh_result [OF g] by simp
  have declined: "\<not> answer \<longrightarrow> runSet E opts tr = (None, ?tr3)"
    using run by simp
  have refused: "answer \<and> fst (ghWithInput E ?R ?tr3) = Some e1 \<longrightarrow>
      runSet E opts tr = (Some e1, ?tr4)"
    using run w t4 by auto
  have retried: "runSet E opts tr =
      (case r5 of Some e \<Rightarrow> (Some e, ?tr5) | None \<Rightarrow> runSet_decode E opts o5 ?tr5)"
    if "answer" "fst (ghWithInput E ?R ?tr3) = None"
    using run w t4 g t5 that by (auto split: option.splits)
  have calls: "gh_calls (snd (runSet E opts tr)) = gh_calls tr @ [?C, ?C]"
    if "answer" "fst (ghWithInput E ?R ?tr3) = None"
    using retried [OF that] runSet_decode_gh_calls [of E opts o5 ?tr5]
    by (cases r5) (simp_all add: gh_calls_append)
  have shape: "\<exists>ps. snd (runSet E opts tr) =
      tr @ [Gh ?C, Println scope_notice, AskOne question, GhWithInput ?R, Gh ?C] @ ps"
    if "answer" "fst (ghWithInput E ?R ?tr3) = None"
    using retried [OF that] runSet_decode_trace [of E opts o5 ?tr5]
    by (cases r5) auto
  have failed: "snd (snd (fst (gh E ?C ?tr4))) = Some e2 \<longrightarrow> runSet E opts tr = (Some e2, ?tr5)"
    if "answer" "fst (ghWithInput E ?R ?tr3) = None"
    using retried [OF that] g by auto
  from declined refused calls shape failed show ?thesis
    by blast
qed

text \<open>
  The three cases of C1 on concrete environments: the caller declines; the
  re-authentication fails; the retry fails with the same missing-scope stderr.
\<close>

theorem scope_recovery_witness:
  "runSet env_declined rocket_opts [] =
     (None, [Gh (cmdArgs env_declined rocket_opts), Println scope_notice, AskOne question]) \<and>
   runSet env_refresh_fails rocket_opts [] =
     (Some (ToolExecutionFailedInteractive ''exit status 1''),
      [Gh (cmdArgs env_refresh_fails rocket_opts), Println scope_notice, AskOne question,
       GhWithInput [''auth'', ''refresh'', ''-s'', ''user'']]) \<and>
   gh_calls (snd (runSet env_retry_fails rocket_opts [])) =
     [cmdArgs env_retry_fails rocket_opts, cmdArgs env_retry_fails rocket_opts] \<and>
   runSet env_retry_fails rocket_opts [] =
     (Some (ToolExecutionFailed ''exit status 1'' scope_stderr),
      [Gh (cmdArgs env_retry_fails rocket_opts), Println scope_notice, AskOne question,
       GhWithInput [''auth'', ''refresh'', ''-s'', ''user''],
       Gh (cmdArgs env_retry_fails rocket_opts)])"
proof -
  have d: "runSet env_declined rocket_opts [] =
     (None, [Gh (cmdArgs env_declined rocket_opts), Println scope_notice, AskOne question])"
    using scope_recovery [of env_declined rocket_opts "[]" Malformed scope_stderr
        "ToolExecutionFailed ''exit status 1'' scope_stderr"
        "[Gh (cmdArgs env_declined rocket_opts)]" False]
    by (simp add: env_declined_def gh_env_scope_first scope_stderr_marker confirm_env_scope)
  have r: "runSet env_refresh_fails rocket_opts [] =
     (Some (ToolExecutionFailedInteractive ''exit status 1''),
      [Gh (cmdArgs env_refresh_fails rocket_opts), Println scope_notice, AskOne question,
       GhWithInput [''auth'', ''refresh'', ''-s'', ''user'']])"
    using scope_recovery [of env_refresh_fails rocket_opts "[]" Malformed scope_stderr
        "ToolExecutionFailed ''exit status 1'' scope_stderr"
        "[Gh (cmdArgs env_refresh_fails rocket_opts)]" True
        "ToolExecutionFailedInteractive ''exit status 1''"]
    by (simp add: env_refresh_fails_def gh_env_scope_first scope_stderr_marker
        confirm_env_scope ghWithInput_env_scope)
  have f: "gh_calls (snd (runSet env_retry_fails rocket_opts [])) =
     [cmdArgs env_retry_fails rocket_opts, cmdArgs env_retry_fails rocket_opts] \<and>
   runSet env_retry_fails rocket_opts [] =
     (Some (ToolExecutionFailed ''exit status 1'' scope_stderr),
      [Gh (cmdArgs env_retry_fails rocket_opts), Println scope_notice, AskOne question,
       GhWithInput [''auth'', ''refresh'', ''-s'', ''user''],
       Gh (cmdArgs env_retry_fails rocket_opts)])"
    using scope_recovery [of env_retry_fails rocket_opts "[]" Malformed scope_stderr
        "ToolExecutionFailed ''exit status 1'' scope_stderr"
        "[Gh (cmdArgs env_retry_fails rocket_opts)]" True _
        "ToolExecutionFailed ''exit status 1'' scope_stderr"]
    by (simp add: env_retry_fails_def gh_env_scope_first scope_stderr_marker
        confirm_env_scope ghWithInput_env_scope gh_env_scope_retry)
  from d r f show ?thesis by simp
qed

text \<open>
  Claim C1 as it was stated says that accepting leads to exactly one retry. Here the
  first call fails with the marker and the caller accepts, but \<open>gh auth refresh\<close> exits
  with status 1: \<open>runSet\<close> returns that error and the mutation has been sent once, not
  twice.
\<close>

theorem retry_after_accept_counterexample:
  "snd (snd (fst (gh env_refresh_fails (cmdArgs env_refresh_fails clear_opts) []))) =
     Some (ToolExecutionFailed ''exit status 1'' scope_stderr) \<and>
   strings_Contains scope_stderr scope_marker \<and>
   confirm env_refresh_fails
     [Gh (cmdArgs env_refresh_fails clear_opts), Println scope_notice] = Inr True \<and>
   runSet env_refresh_fails clear_opts [] =
     (Some (ToolExecutionFailedInteractive ''exit status 1''),
      [Gh (cmdArgs env_refresh_fails clear_opts), Println scope_notice, AskOne question,
       GhWithInput [''auth'', ''refresh'', ''-s'', ''user'']]) \<and>
   gh_calls (snd (runSet env_refresh_fails clear_opts [])) =
     [cmdArgs env_refresh_fails clear_opts] \<and>
   gh_calls (snd (runSet env_refresh_fails clear_opts [])) \<noteq>
     [cmdArgs env_refresh_fails clear_opts, cmdArgs env_refresh_fails clear_opts]"
proof -
  have run: "runSet env_refresh_fails clear_opts [] =
     (Some (ToolExecutionFailedInteractive ''exit status 1''),
      [Gh (cmdArgs env_refresh_fails clear_opts), Println scope_notice, AskOne question,
       GhWithInput [''auth'', ''refresh'', ''-s'', ''user'']])"
    using runSet_scope [of env_refresh_fails clear_opts "[]" Malformed scope_stderr
        "ToolExecutionFailed ''exit status 1'' scope_stderr"
        "[Gh (cmdArgs env_refresh_fails clear_opts)]"]
    by (simp add: env_refresh_fails_def gh_env_scope_first scope_stderr_marker
        confirm_env_scope ghWithInput_env_scope)
  then show ?thesis
    by (simp add: env_refresh_fails_def gh_env_scope_first scope_stderr_marker
        confirm_env_scope)
qed

subsection \<open>C2: verification of the echoed emoji\<close>

text \<open>
  Claim C2. When the call of \<open>gh\<close> that \<open>runSet\<close> decodes succeeded (the first call, or
  the retry after a recovered scope failure) and its output decodes to \<open>resp\<close>, then
  \<open>runSet\<close> fails with \<open>VerificationFailed\<close> if the emoji of \<open>resp\<close> differs from the
  emoji sent, and returns nil if they are equal.
\<close>

theorem emoji_verification:
  assumes "unmarshal_set out = Inr resp"
  shows
    "(gh E (cmdArgs E opts) tr = ((out, eout, None), tr1) \<longrightarrow>
        fst (runSet E opts tr) =
          (if Emoji resp \<noteq> set_emoji opts then Some VerificationFailed else None)) \<and>
     (gh E (cmdArgs E opts) tr = ((out0, eout0, Some err), tr1) \<and>
      strings_Contains eout0 scope_marker \<and>
      confirm E (tr @ [Gh (cmdArgs E opts), Println scope_notice]) = Inr True \<and>
      fst (ghWithInput E [''auth'', ''refresh'', ''-s'', ''user'']
             (tr @ [Gh (cmdArgs E opts), Println scope_notice, AskOne question])) = None \<and>
      fst (gh E (cmdArgs E opts)
             (tr @ [Gh (cmdArgs E opts), Println scope_notice, AskOne question,
                    GhWithInput [''auth'', ''refresh'', ''-s'', ''user'']])) = (out, eout, None) \<longrightarrow>
        fst (runSet E opts tr) =
          (if Emoji resp \<noteq> set_emoji opts then Some VerificationFailed else None))"
proof (intro conjI impI)
  assume "gh E (cmdArgs E opts) tr = ((out, eout, None), tr1)"
  then show "fst (runSet E opts tr) =
      (if Emoji resp \<noteq> set_emoji opts then Some VerificationFailed else None)"
    using assms by (simp add: runSet_success runSet_decode_fst)
next
  let ?C = "cmdArgs E opts"
  let ?R = "[''auth'', ''refresh'', ''-s'', ''user'']"
  let ?tr3 = "tr @ [Gh ?C, Println scope_notice, AskOne question]"
  let ?tr4 = "tr @ [Gh ?C, Println scope_notice, AskOne question, GhWithInput ?R]"
  assume a: "gh E ?C tr = ((out0, eout0, Some err), tr1) \<and>
      strings_Contains eout0 scope_marker \<and>
      confirm E (tr @ [Gh ?C, Println scope_notice]) = Inr True \<and>
      fst (ghWithInput E ?R ?tr3) = None \<and>
      fst (gh E ?C ?tr4) = (out, eout, None)"
  obtain t4 where w: "ghWithInput E ?R ?tr3 = (None, t4)"
    using a by (cases "ghWithInput E ?R ?tr3") auto
  then have t4: "t4 = ?tr4" using ghWithInput_trace [of E ?R ?tr3] by simp
  obtain t5 where g: "gh E ?C ?tr4 = ((out, eout, None), t5)"
    using a by (cases "gh E ?C ?tr4") auto
  have "runSet E opts tr = runSet_decode E opts out t5"
    using a w t4 g by (simp add: runSet_scope)
  then show "fst (runSet E opts tr) =
      (if Emoji resp \<noteq> set_emoji opts then Some VerificationFailed else None)"
    using assms by (simp add: runSet_decode_fst)
qed

text \<open>
  C2 on replies to \<open>set -e rocket\<close>: the server echoes ":rocket:"; the server echoes
  an empty emoji; and after a recovered scope failure, the retry is answered with
  ":rocket:" when ":rocket:" was sent, and when ":tada:" was sent.
\<close>

theorem emoji_verification_witness:
  "fst (runSet (env_echo '':rocket:'') rocket_opts []) = None \<and>
   fst (runSet (env_echo []) rocket_opts []) = Some VerificationFailed \<and>
   fst (runSet env_retry_ok rocket_opts []) = None \<and>
   fst (runSet env_retry_ok (rocket_opts\<lparr>set_Emoji := ''tada''\<rparr>) []) = Some VerificationFailed"
proof -
  have e: "set_emoji rocket_opts = '':rocket:''"
    "set_emoji (rocket_opts\<lparr>set_Emoji := ''tada''\<rparr>) = '':tada:''"
    by (simp_all add: set_emoji_def rocket_opts_def)
  have a: "fst (runSet (env_echo '':rocket:'') rocket_opts []) = None"
    using emoji_verification [OF unmarshal_set_status_json [of False "''shipping''" "'':rocket:''"],
        of "env_echo '':rocket:''" rocket_opts "[]" "[]"
           "[Gh (cmdArgs (env_echo '':rocket:'') rocket_opts)]"]
    by (simp add: env_echo_def gh_env_const e)
  have b: "fst (runSet (env_echo []) rocket_opts []) = Some VerificationFailed"
    using emoji_verification [OF unmarshal_set_status_json [of False "''shipping''" "[]"],
        of "env_echo []" rocket_opts "[]" "[]"
           "[Gh (cmdArgs (env_echo []) rocket_opts)]"]
    by (simp add: env_echo_def gh_env_const e)
  have c: "fst (runSet env_retry_ok opts []) =
      (if '':rocket:'' \<noteq> set_emoji opts then Some VerificationFailed else None)" for opts
    using emoji_verification [OF unmarshal_set_status_json [of False "''shipping''" "'':rocket:''"],
        where E = env_retry_ok and opts = opts and tr = "[]" and ?out0.0 = Malformed
          and ?eout0.0 = scope_stderr
          and err = "ToolExecutionFailed ''exit status 1'' scope_stderr"
          and ?tr1.0 = "[Gh (cmdArgs env_retry_ok opts)]" and eout = "[]"]
    by (simp add: env_retry_ok_def gh_env_scope_first scope_stderr_marker confirm_env_scope
        ghWithInput_env_scope gh_env_scope_retry)
  from a b c [of rocket_opts] c [of "rocket_opts\<lparr>set_Emoji := ''tada''\<rparr>"] show ?thesis
    by (simp add: e)
qed

subsection \<open>C3: routing of the get operation\<close>

text \<open>
  Claim C3. A login that contains "/" makes \<open>runGet\<close> behave as \<open>runGetTeam\<close>, and the
  call it makes is a team-roster query; any other login makes it behave as
  \<open>runGetUser\<close>, and the call is the single-user query for that login.
\<close>

theorem runGet_routing:
  "(CHR ''/'' \<in> set (get_Login opts) \<longrightarrow>
      runGet E opts tr = runGetTeam E opts tr \<and>
      (\<exists>org slug. snd (runGet E opts tr) ! length tr = Gh (team_args org slug))) \<and>
   (CHR ''/'' \<notin> set (get_Login opts) \<longrightarrow>
      runGet E opts tr = runGetUser E opts tr \<and>
      snd (runGet E opts tr) ! length tr =
        Gh [''api'', ''graphql'', ''-f'', ''query='' @ status_query (get_Login opts)])"
proof (intro conjI impI)
  assume s: "CHR ''/'' \<in> set (get_Login opts)"
  then show eq: "runGet E opts tr = runGetTeam E opts tr"
    by (simp add: runGet_def strings_Contains_byte)
  from s obtain a b r where "splitByte (CHR ''/'') (get_Login opts) = a # b # r"
    using splitByte_in by blast
  then have "strings_Split (get_Login opts) ''/'' = a # b # r"
    by (simp add: strings_Split_def)
  from runGetTeam_nth [OF this] eq
  show "\<exists>org slug. snd (runGet E opts tr) ! length tr = Gh (team_args org slug)"
    by auto
next
  assume s: "CHR ''/'' \<notin> set (get_Login opts)"
  then show eq: "runGet E opts tr = runGetUser E opts tr"
    by (simp add: runGet_def strings_Contains_byte)
  then show "snd (runGet E opts tr) ! length tr =
        Gh [''api'', ''graphql'', ''-f'', ''query='' @ status_query (get_Login opts)]"
    by (simp add: runGetUser_nth)
qed

text \<open>
C3 on the logins "octo/cats" and "octocat".
\<close>

theorem runGet_routing_witness:
  "CHR ''/'' \<in> set ''octo/cats'' \<and>
   runGet env_team100 \<lparr>get_Login = ''octo/cats''\<rparr> [] =
     runGetTeam env_team100 \<lparr>get_Login = ''octo/cats''\<rparr> [] \<and>
   CHR ''/'' \<notin> set ''octocat'' \<and>
   runGet env_both \<lparr>get_Login = ''octocat''\<rparr> [] =
     runGetUser env_both \<lparr>get_Login = ''octocat''\<rparr> [] \<and>
   snd (runGet env_both \<lparr>get_Login = ''octocat''\<rparr> []) ! 0 =
     Gh [''api'', ''graphql'', ''-f'', ''query='' @ status_query ''octocat'']"
proof -
  have t: "CHR ''/'' \<in> set (get_Login \<lparr>get_Login = ''octo/cats''\<rparr>)" by simp
  have u: "CHR ''/'' \<notin> set (get_Login \<lparr>get_Login = ''octocat''\<rparr>)" by simp
  note a = runGet_routing [of "\<lparr>get_Login = ''octo/cats''\<rparr>" env_team100 "[]",
      THEN conjunct1, rule_format, OF t, THEN conjunct1]
  note b = runGet_routing [of "\<lparr>get_Login = ''octocat''\<rparr>" env_both "[]",
      THEN conjunct2, rule_format, OF u]
  from b have b1: "runGet env_both \<lparr>get_Login = ''octocat''\<rparr> [] =
     runGetUser env_both \<lparr>get_Login = ''octocat''\<rparr> []" by (rule conjunct1)
  have b2: "snd (runGet env_both \<lparr>get_Login = ''octocat''\<rparr> []) ! 0 =
     Gh [''api'', ''graphql'', ''-f'', ''query='' @ status_query ''octocat'']"
    using b [THEN conjunct2] by simp
  from t u a b1 b2 show ?thesis by (simp only: select_convs simp_thms)
qed

subsection \<open>C4: the two shapes of the single-user query\<close>

text \<open>
  Claim C4. \<open>apiStatus\<close> makes one call of \<open>gh\<close>. For the empty login the query is the
  viewer query, which has no login filter, and the response is decoded under "viewer";
  for any other login the query is \<open>user(login:"...")\<close> with the login in it, and the
  response is decoded under "user".
\<close>

theorem apiStatus_query_shape:
  "snd (apiStatus E login tr) =
     tr @ [Gh [''api'', ''graphql'', ''-f'',
               ''query='' @
                 (if login = []
                  then ''query {viewer { status { indicatesLimitedAvailability message emoji }}}''
                  else ''query { user(login:'' @ dq @ login @ dq
                         @ '') { status { indicatesLimitedAvailability message emoji }}}'')]] \<and>
   \<not> strings_Contains
        ''query {viewer { status { indicatesLimitedAvailability message emoji }}}'' ''login'' \<and>
   (gh E (status_args login) tr = ((sout, eout, None), tr1) \<longrightarrow>
      fst (apiStatus E login tr) =
        apiStatus_decode (if login = [] then ''viewer'' else ''user'') sout)"
proof (intro conjI impI)
  show "snd (apiStatus E login tr) =
     tr @ [Gh [''api'', ''graphql'', ''-f'',
               ''query='' @
                 (if login = []
                  then ''query {viewer { status { indicatesLimitedAvailability message emoji }}}''
                  else ''query { user(login:'' @ dq @ login @ dq
                         @ '') { status { indicatesLimitedAvailability message emoji }}}'')]]"
    by (simp add: apiStatus_trace status_query_def viewer_query_def user_query_def)
  show "\<not> strings_Contains
        ''query {viewer { status { indicatesLimitedAvailability message emoji }}}'' ''login''"
    using viewer_query_no_login by (simp add: viewer_query_def)
  assume "gh E (status_args login) tr = ((sout, eout, None), tr1)"
  then show "fst (apiStatus E login tr) =
        apiStatus_decode (if login = [] then ''viewer'' else ''user'') sout"
    by (simp add: apiStatus_success status_key_def)
qed

text \<open>
  C4 on a response that holds one status under "viewer" and another under "user": the
  empty login reads the first, the login "octocat" the second.
\<close>

theorem apiStatus_query_shape_witness:
  "apiStatus env_both [] [] =
     (Inr \<lparr>IndicatesLimitedAvailability = False, Message = ''mine'', Emoji = '':wave:''\<rparr>,
      [Gh [''api'', ''graphql'', ''-f'',
           ''query=query {viewer { status { indicatesLimitedAvailability message emoji }}}'']]) \<and>
   apiStatus env_both ''octocat'' [] =
     (Inr \<lparr>IndicatesLimitedAvailability = True, Message = ''theirs'', Emoji = '':zzz:''\<rparr>,
      [Gh [''api'', ''graphql'', ''-f'',
           ''query=query { user(login:'' @ dq @ ''octocat'' @ dq
             @ '') { status { indicatesLimitedAvailability message emoji }}}'']])"
proof -
  have v: "apiStatus env_both [] [] =
     (Inr \<lparr>IndicatesLimitedAvailability = False, Message = ''mine'', Emoji = '':wave:''\<rparr>,
      [Gh [''api'', ''graphql'', ''-f'',
           ''query=query {viewer { status { indicatesLimitedAvailability message emoji }}}'']])"
    using apiStatus_query_shape [of env_both "[]" "[]" "Doc both_doc" "[]" "[Gh (status_args [])]"]
    by (simp add: env_both_def gh_env_const apiStatus_decode_both prod_eq_iff)
  have u: "apiStatus env_both ''octocat'' [] =
     (Inr \<lparr>IndicatesLimitedAvailability = True, Message = ''theirs'', Emoji = '':zzz:''\<rparr>,
      [Gh [''api'', ''graphql'', ''-f'',
           ''query=query { user(login:'' @ dq @ ''octocat'' @ dq
             @ '') { status { indicatesLimitedAvailability message emoji }}}'']])"
    using apiStatus_query_shape [of env_both "''octocat''" "[]" "Doc both_doc" "[]"
        "[Gh (status_args ''octocat'')]"]
    by (simp add: env_both_def gh_env_const apiStatus_decode_both prod_eq_iff)
  from v u show ?thesis by simp
qed

subsection \<open>C5: the emoji variable of the mutation\<close>

text \<open>
  Claim C5. The first call of \<open>runSet\<close> is \<open>gh\<close> with \<open>cmdArgs\<close>, whose emoji variable
  (\<open>-f emoji=...\<close>) is the alias between colons when the alias is not empty, and empty
  when it is; the alias "rocket" gives ":rocket:".
\<close>

theorem set_emoji_argument:
  "snd (runSet E opts tr) ! length tr = Gh (cmdArgs E opts) \<and>
   cmdArgs E opts ! 6 = ''-f'' \<and>
   cmdArgs E opts ! 7 =
     ''emoji='' @ (if set_Emoji opts = [] then [] else '':'' @ set_Emoji opts @ '':'') \<and>
   (set_Emoji opts = ''rocket'' \<longrightarrow> cmdArgs E opts ! 7 = ''emoji=:rocket:'')"
  by (simp add: runSet_nth) (simp add: cmdArgs_def set_emoji_def)

text \<open>
C5 on the alias "rocket" and on the options of \<open>clear\<close>.
\<close>

theorem set_emoji_argument_witness:
  "cmdArgs (env_echo []) rocket_opts ! 7 = ''emoji=:rocket:'' \<and>
   cmdArgs (env_echo []) clear_opts ! 7 = ''emoji=''"
  using set_emoji_argument [of "env_echo []" rocket_opts "[]"]
    set_emoji_argument [of "env_echo []" clear_opts "[]"]
  by (simp add: rocket_opts_def clear_opts_def)

subsection \<open>C6: the expiry variable of the mutation\<close>

text \<open>
  Claim C6. The expiry variable of the mutation (\<open>-F expiry=...\<close>) is "null" when the
  duration is not positive, and otherwise the formatted time \<open>Now().Add(Expiry)\<close>, whose
  instant is the instant of the clock reading plus the duration, in the same location.
  A formatted time \<open>t\<close>, in a zone less than 100 hours from UTC, reads: the year, "-",
  the month in two digits, "-", the day in two digits, "T", hours ":" minutes ":" seconds
  in two digits each, then the sign and the hours and minutes of the zone offset in two
  digits each. The year has four digits when it lies between 0 and 9999. Year, month and
  day are a date of the Gregorian calendar, and that date with the time of day is the
  second of \<open>t\<close>, moved by the offset.
\<close>

theorem set_expiry_argument:
  "snd (runSet E opts tr) ! length tr = Gh (cmdArgs E opts) \<and>
   cmdArgs E opts ! 10 = ''-F'' \<and>
   cmdArgs E opts ! 11 =
     ''expiry='' @
       (if 0 <s set_Expiry opts then time_Format (time_Add (time_Now E) (set_Expiry opts))
        else ''null'') \<and>
   (0 <s set_Expiry opts \<and> 0 \<le> nsec (time_Now E) \<and> nsec (time_Now E) < 1000000000 \<longrightarrow>
      instant (time_Add (time_Now E) (set_Expiry opts)) =
        instant (time_Now E) + sint (set_Expiry opts) \<and>
      0 \<le> nsec (time_Add (time_Now E) (set_Expiry opts)) \<and>
      nsec (time_Add (time_Now E) (set_Expiry opts)) < 1000000000 \<and>
      loc (time_Add (time_Now E) (set_Expiry opts)) = loc (time_Now E)) \<and>
   (\<bar>loc t (unixSec t)\<bar> < 360000 \<longrightarrow>
      (\<exists>y m d hh mi ss yt.
         time_Format t =
           yt @ ''-'' @ two m @ ''-'' @ two d @ ''T'' @ two hh @ '':'' @ two mi @ '':'' @ two ss
             @ (if loc t (unixSec t) \<le> - 60 then ''-'' else ''+'')
             @ two (\<bar>loc t (unixSec t)\<bar> div 3600) @ two (\<bar>loc t (unixSec t)\<bar> div 60 mod 60) \<and>
         (0 \<le> y \<and> y \<le> 9999 \<longrightarrow> yt = four y) \<and>
         valid_date y m d \<and> 0 \<le> hh \<and> hh < 24 \<and> 0 \<le> mi \<and> mi < 60 \<and> 0 \<le> ss \<and> ss < 60 \<and>
         days_from_civil y m d * 86400 + hh * 3600 + mi * 60 + ss =
           unixSec t + loc t (unixSec t)))"
proof -
  have a: "snd (runSet E opts tr) ! length tr = Gh (cmdArgs E opts)" by (rule runSet_nth)
  have b: "cmdArgs E opts ! 10 = ''-F''" by (simp add: cmdArgs_def)
  have c: "cmdArgs E opts ! 11 =
     ''expiry='' @
       (if 0 <s set_Expiry opts then time_Format (time_Add (time_Now E) (set_Expiry opts))
        else ''null'')"
    by (simp add: cmdArgs_def set_expiry_def)
  note d = time_Add_instant [of "set_Expiry opts" "time_Now E"]
  note e = time_Format_layout [of t]
  from a b c d e show ?thesis by blast
qed

text \<open>
  C6 on a clock reading of 2023-11-14 15:13:20 at UTC-7: thirty minutes give
  "2023-11-14T15:43:20-0700", which reads as a valid date and time of day of the second
  1700001800 moved by -25200; the durations 0 and -1ns give "null".
\<close>

theorem set_expiry_argument_witness:
  "cmdArgs (env_echo []) rocket_opts ! 11 = ''expiry=2023-11-14T15:43:20-0700'' \<and>
   instant (time_Add t0 1800000000000) = instant t0 + 1800000000000 \<and>
   cmdArgs (env_echo []) clear_opts ! 11 = ''expiry=null'' \<and>
   cmdArgs (env_echo []) (clear_opts\<lparr>set_Expiry := - 1\<rparr>) ! 11 = ''expiry=null'' \<and>
   \<bar>loc (time_Add t0 1800000000000) (unixSec (time_Add t0 1800000000000))\<bar> < 360000 \<and>
   (\<exists>y m d hh mi ss yt.
      ''2023-11-14T15:43:20-0700'' =
        yt @ ''-'' @ two m @ ''-'' @ two d @ ''T'' @ two hh @ '':'' @ two mi @ '':'' @ two ss
          @ ''-'' @ two 7 @ two 0 \<and>
      (0 \<le> y \<and> y \<le> 9999 \<longrightarrow> yt = four y) \<and>
      valid_date y m d \<and> 0 \<le> hh \<and> hh < 24 \<and> 0 \<le> mi \<and> mi < 60 \<and> 0 \<le> ss \<and> ss < 60 \<and>
      days_from_civil y m d * 86400 + hh * 3600 + mi * 60 + ss = 1700001800 - 25200)"
proof -
  let ?T = "time_Add t0 1800000000000"
  have n: "time_Now (env_echo []) = t0" by (simp add: env_echo_def env_const_def)
  have p: "(0::64 word) <s 1800000000000" by (simp add: word_sless_alt)
  have z: "\<not> (0::64 word) <s 0" "\<not> (0::64 word) <s - 1" by (simp_all add: word_sless_alt)
  have s: "sint (1800000000000 :: 64 word) = 1800000000000" by simp
  have t: "nsec t0 = 0" by (simp add: t0_def)
  have T: "unixSec ?T = 1700001800" "loc ?T = (\<lambda>u. - 25200)"
    by (simp_all add: time_Add_def t0_def tquot_def trem_def Let_def)
  have h: "\<bar>loc ?T (unixSec ?T)\<bar> < 360000" by (simp add: T)
  note r = set_expiry_argument [of "env_echo []" rocket_opts "[]" ?T]
  note c = set_expiry_argument [of "env_echo []" clear_opts "[]" ?T]
  note m = set_expiry_argument [of "env_echo []" "clear_opts\<lparr>set_Expiry := - 1\<rparr>" "[]" ?T]
  have 1: "cmdArgs (env_echo []) rocket_opts ! 11 = ''expiry=2023-11-14T15:43:20-0700''"
    using r by (simp add: rocket_opts_def n p format_t0_30m)
  have 2: "instant ?T = instant t0 + 1800000000000"
    using r by (simp add: rocket_opts_def n p s t)
  have 3: "cmdArgs (env_echo []) clear_opts ! 11 = ''expiry=null''"
    using c by (simp add: clear_opts_def z)
  have 4: "cmdArgs (env_echo []) (clear_opts\<lparr>set_Expiry := - 1\<rparr>) ! 11 = ''expiry=null''"
    using m by (simp add: clear_opts_def z)
  note e = r [THEN conjunct2, THEN conjunct2, THEN conjunct2, THEN conjunct2, rule_format, OF h]
  have 5: "\<exists>y m d hh mi ss yt.
      ''2023-11-14T15:43:20-0700'' =
        yt @ ''-'' @ two m @ ''-'' @ two d @ ''T'' @ two hh @ '':'' @ two mi @ '':'' @ two ss
          @ ''-'' @ two 7 @ two 0 \<and>
      (0 \<le> y \<and> y \<le> 9999 \<longrightarrow> yt = four y) \<and>
      valid_date y m d \<and> 0 \<le> hh \<and> hh < 24 \<and> 0 \<le> mi \<and> mi < 60 \<and> 0 \<le> ss \<and> ss < 60 \<and>
      days_from_civil y m d * 86400 + hh * 3600 + mi * 60 + ss = 1700001800 - 25200"
    using e unfolding T format_t0_30m by simp
  from 1 2 3 4 h 5 show ?thesis by (intro conjI)
qed

subsection \<open>C7: when the single-user lookup fails to decode\<close>

text \<open>
  Claim C7, as amended. When \<open>gh\<close> succeeded, \<open>apiStatus\<close> fails with a decode error
  exactly when its output is not well-formed JSON, or the document does not have the
  shape of \<open>map[string]map[string]map[string]status\<close>, or the path data, (viewer or
  user), status is absent from it. In particular an absent path is always an error and
  never a default status.
\<close>

theorem apiStatus_decode_error:
  assumes "gh E (status_args login) tr = ((sout, eout, None), tr1)"
  shows "decode_failed (fst (apiStatus E login tr)) \<longleftrightarrow>
           (case sout of
              Malformed \<Rightarrow> True
            | Doc j \<Rightarrow> \<not> response_shaped j \<or> status_at j (status_key login) = None)"
  using apiStatus_success [OF assms]
  by (simp add: decode_failed_apiStatus_decode apiStatus_decode_fails_iff)

text \<open>
  C7 on three outputs for the login "octocat": no JSON at all; a status under "viewer"
  only; a status under "user".
\<close>

theorem apiStatus_decode_error_witness:
  "decode_failed (fst (apiStatus (env_const (Exited None Malformed [])) ''octocat'' [])) \<and>
   decode_failed
     (fst (apiStatus (env_reply (status_doc ''viewer'' (status_json False ''hi'' '':wave:'')))
        ''octocat'' [])) \<and>
   \<not> decode_failed
     (fst (apiStatus (env_reply (status_doc ''user'' (status_json False ''hi'' '':wave:'')))
        ''octocat'' []))"
proof -
  have k: "status_key ''octocat'' = ''user''" by (simp add: status_key_def)
  have a: "decode_failed (fst (apiStatus (env_const (Exited None Malformed [])) ''octocat'' []))"
    using apiStatus_decode_error [of "env_const (Exited None Malformed [])" "''octocat''" "[]"
        Malformed "[]" "[Gh (status_args ''octocat'')]"]
    by (simp add: gh_env_const)
  have b: "decode_failed
     (fst (apiStatus (env_reply (status_doc ''viewer'' (status_json False ''hi'' '':wave:'')))
        ''octocat'' []))"
    using apiStatus_decode_error [of "env_reply (status_doc ''viewer'' (status_json False ''hi'' '':wave:''))"
        "''octocat''" "[]" "Doc (status_doc ''viewer'' (status_json False ''hi'' '':wave:''))" "[]"
        "[Gh (status_args ''octocat'')]"]
    by (simp add: env_reply_def gh_env_const k status_at_status_doc)
  have c: "\<not> decode_failed
     (fst (apiStatus (env_reply (status_doc ''user'' (status_json False ''hi'' '':wave:'')))
        ''octocat'' []))"
    using apiStatus_decode_error [of "env_reply (status_doc ''user'' (status_json False ''hi'' '':wave:''))"
        "''octocat''" "[]" "Doc (status_doc ''user'' (status_json False ''hi'' '':wave:''))" "[]"
        "[Gh (status_args ''octocat'')]"]
    by (simp add: env_reply_def gh_env_const k status_at_status_doc shaped_status_doc)
  from a b c show ?thesis by (intro conjI)
qed

text \<open>
  Claim C7 as it was stated says that the decode error occurs only when the path is
  absent or the output is not JSON. In both documents here the output is JSON and the
  path data, user, status is present, and \<open>apiStatus\<close> fails with the decode error:
  once because a top-level member next to "data" is a number, once because the status
  itself is a number.
\<close>

theorem decode_error_path_present_counterexample:
  "status_at extensions_doc ''user'' = Some (status_json False ''hi'' '':wave:'') \<and>
   fst (apiStatus (env_reply extensions_doc) ''octocat'' []) =
     Inl (DecodeError (Some UnmarshalTypeError)) \<and>
   status_at (status_doc ''user'' (JNumber ''5'')) ''user'' = Some (JNumber ''5'') \<and>
   fst (apiStatus (env_reply (status_doc ''user'' (JNumber ''5''))) ''octocat'' []) =
     Inl (DecodeError (Some UnmarshalTypeError))"
proof -
  have k: "status_key ''octocat'' = ''user''" by (simp add: status_key_def)
  have a: "status_at extensions_doc ''user'' = Some (status_json False ''hi'' '':wave:'')"
    by (simp add: status_at_def extensions_doc_def member_def)
  have b: "fst (apiStatus (env_reply j) ''octocat'' []) = apiStatus_decode ''user'' (Doc j)" for j
    using apiStatus_success [of "env_reply j" "''octocat''" "[]" "Doc j" "[]"
        "[Gh (status_args ''octocat'')]"]
    by (simp add: env_reply_def gh_env_const k)
  show ?thesis
    by (simp add: a b extensions_doc_decode status_at_status_doc)
qed

subsection \<open>C8: one query for a team roster\<close>




subsection \<open>C9: a null status\<close>

text \<open>
  Claim C9, as amended. Let \<open>gh\<close> succeed with a document. If the document has the shape
  of the response type and the value at data, (viewer or user), status is null,
  \<open>apiStatus\<close> returns the zero status: not limited, empty message, empty emoji. The bare
  error "failed to deserialize JSON" of the comma-ok test is returned exactly when the
  document has the shape and no member "status" at that path.
\<close>

theorem null_status_is_zero_status:
  assumes "gh E (status_args login) tr = ((Doc j, eout, None), tr1)"
  shows "(response_shaped j \<and> status_at j (status_key login) = Some JNull \<longrightarrow>
            fst (apiStatus E login tr) =
              Inr \<lparr>IndicatesLimitedAvailability = False, Message = [], Emoji = []\<rparr>) \<and>
         (fst (apiStatus E login tr) = Inl (DecodeError None) \<longleftrightarrow>
            response_shaped j \<and> status_at j (status_key login) = None)"
proof (cases "response_shaped j")
  case True
  then show ?thesis
    using apiStatus_success [OF assms]
    by (simp add: apiStatus_decode_shaped dec_status_null zero_status_def split: option.splits)
next
  case False
  from apiStatus_decode_unshaped [OF False, of "status_key login"] False show ?thesis
    using apiStatus_success [OF assms] by auto
qed

text \<open>
  C9 on \<open>{"data":{"user":{"status":null}}}\<close>, on the same under "viewer" for the empty
  login, and on \<open>{"data":{"user":{}}}\<close>.
\<close>

theorem null_status_is_zero_status_witness:
  "fst (apiStatus (env_reply (status_doc ''user'' JNull)) ''octocat'' []) =
     Inr \<lparr>IndicatesLimitedAvailability = False, Message = [], Emoji = []\<rparr> \<and>
   fst (apiStatus (env_reply (status_doc ''viewer'' JNull)) [] []) =
     Inr \<lparr>IndicatesLimitedAvailability = False, Message = [], Emoji = []\<rparr> \<and>
   fst (apiStatus (env_reply (JObject [(''data'', JObject [(''user'', JObject [])])])) ''octocat'' []) =
     Inl (DecodeError None)"
proof -
  have k: "status_key ''octocat'' = ''user''" "status_key [] = ''viewer''"
    by (simp_all add: status_key_def)
  have a: "fst (apiStatus (env_reply (status_doc ''user'' JNull)) ''octocat'' []) =
     Inr \<lparr>IndicatesLimitedAvailability = False, Message = [], Emoji = []\<rparr>"
    using null_status_is_zero_status [of "env_reply (status_doc ''user'' JNull)" "''octocat''" "[]"
        "status_doc ''user'' JNull" "[]" "[Gh (status_args ''octocat'')]"]
    by (simp add: env_reply_def gh_env_const k shaped_null_doc status_at_status_doc)
  have b: "fst (apiStatus (env_reply (status_doc ''viewer'' JNull)) [] []) =
     Inr \<lparr>IndicatesLimitedAvailability = False, Message = [], Emoji = []\<rparr>"
    using null_status_is_zero_status [of "env_reply (status_doc ''viewer'' JNull)" "[]" "[]"
        "status_doc ''viewer'' JNull" "[]" "[Gh (status_args [])]"]
    by (simp add: env_reply_def gh_env_const k shaped_null_doc status_at_status_doc)
  have c: "fst (apiStatus (env_reply (JObject [(''data'', JObject [(''user'', JObject [])])]))
       ''octocat'' []) = Inl (DecodeError None)"
    using null_status_is_zero_status
      [of "env_reply (JObject [(''data'', JObject [(''user'', JObject [])])])" "''octocat''" "[]"
        "JObject [(''data'', JObject [(''user'', JObject [])])]" "[]"
        "[Gh (status_args ''octocat'')]"]
    by (simp add: env_reply_def gh_env_const k shaped_empty_user status_at_def member_def)
  from a b c show ?thesis by (intro conjI)
qed

theorem null_status_ill_typed_sibling_counterexample:
  "status_at null_extensions_doc ''user'' = Some JNull \<and>
   fst (apiStatus (env_reply null_extensions_doc) ''octocat'' []) =
     Inl (DecodeError (Some UnmarshalTypeError))"
proof -
  have k: "status_key ''octocat'' = ''user''" by (simp add: status_key_def)
  have a: "status_at null_extensions_doc ''user'' = Some JNull"
    by (simp add: status_at_def null_extensions_doc_def member_def)
  have d: "apiStatus_decode ''user'' (Doc null_extensions_doc) =
      Inl (DecodeError (Some UnmarshalTypeError))"
    by code_simp
  have b: "fst (apiStatus (env_reply null_extensions_doc) ''octocat'' []) =
      apiStatus_decode ''user'' (Doc null_extensions_doc)"
    using apiStatus_success [of "env_reply null_extensions_doc" "''octocat''" "[]"
        "Doc null_extensions_doc" "[]" "[Gh (status_args ''octocat'')]"]
    by (simp add: env_reply_def gh_env_const k)
  show ?thesis by (simp add: a b d)
qed

subsection \<open>C10: logins with more than two segments\<close>

text \<open>
  Claim C10. For a login \<open>org/slug/rest\<close>, where \<open>org\<close> and \<open>slug\<close> hold no "/",
  \<open>runGet\<close> does exactly what it does for \<open>org/slug\<close>: the call it makes carries the
  query text below, with \<open>org\<close> as the login of the organization ("{owner}" in place of
  an empty \<open>org\<close>) and \<open>slug\<close> as the slug of the team.
\<close>

theorem team_first_two_segments:
  assumes "CHR ''/'' \<notin> set org" and "CHR ''/'' \<notin> set slug"
    and "q =
          ''query {'' @ [CHR 0x0A] @ ''      organization(login:'' @ [CHR 0x22]
          @ (if org = [] then ''{owner}'' else org) @ [CHR 0x22] @ '') {'' @ [CHR 0x0A]
          @ ''        team(slug:'' @ [CHR 0x22] @ slug @ [CHR 0x22] @ '') {'' @ [CHR 0x0A]
          @ ''          memberStatuses(first: 100) {'' @ [CHR 0x0A]
          @ ''            nodes { indicatesLimitedAvailability message emoji user { login } }''
          @ [CHR 0x0A] @ ''          }'' @ [CHR 0x0A] @ ''        }'' @ [CHR 0x0A]
          @ ''      }'' @ [CHR 0x0A] @ ''    }''"
  shows "runGet E \<lparr>get_Login = org @ ''/'' @ slug @ ''/'' @ rest\<rparr> tr =
           runGet E \<lparr>get_Login = org @ ''/'' @ slug\<rparr> tr \<and>
         snd (runGet E \<lparr>get_Login = org @ ''/'' @ slug @ ''/'' @ rest\<rparr> tr) ! length tr =
           Gh [''api'', ''graphql'', ''-f'', ''query='' @ q] \<and>
         snd (runGet E \<lparr>get_Login = org @ ''/'' @ slug\<rparr> tr) ! length tr =
           Gh [''api'', ''graphql'', ''-f'', ''query='' @ q]"
proof -
  let ?long = "\<lparr>get_Login = org @ ''/'' @ slug @ ''/'' @ rest\<rparr>"
  let ?short = "\<lparr>get_Login = org @ ''/'' @ slug\<rparr>"
  have q: "[''api'', ''graphql'', ''-f'', ''query='' @ q] = team_args org slug"
    unfolding assms(3) team_args_def team_query_text [of org slug] ..
  have l: "strings_Split (get_Login ?long) ''/'' = org # slug # splitByte CHR ''/'' rest"
    using assms(1,2) by (simp add: strings_Split_def splitByte_append)
  have s: "strings_Split (get_Login ?short) ''/'' = [org, slug]"
    using assms(1,2) by (simp add: strings_Split_def splitByte_append splitByte_notin)
  have "runGetTeam E ?long tr = runGetTeam E ?short tr"
    using l s by (simp add: runGetTeam_def)
  then have same: "runGet E ?long tr = runGet E ?short tr"
    by (simp add: runGet_def strings_Contains_byte)
  have "runGet E ?long tr = runGetTeam E ?long tr"
    by (simp add: runGet_def strings_Contains_byte)
  then have call: "snd (runGet E ?long tr) ! length tr = Gh (team_args org slug)"
    using runGetTeam_nth [OF l, of E tr] by simp
  show ?thesis
    unfolding q using same call by (simp del: append_assoc)
qed

text \<open>
C10 on "octo/cats/and/more" and on "/cats/more".
\<close>

theorem team_first_two_segments_witness:
  "runGet env_team100 \<lparr>get_Login = ''octo/cats/and/more''\<rparr> [] =
     runGet env_team100 \<lparr>get_Login = ''octo/cats''\<rparr> [] \<and>
   snd (runGet env_team100 \<lparr>get_Login = ''octo/cats/and/more''\<rparr> []) ! 0 =
     Gh [''api'', ''graphql'', ''-f'', ''query='' @ octo_cats_query] \<and>
   snd (runGet env_team100 \<lparr>get_Login = ''/cats/more''\<rparr> []) ! 0 =
     Gh [''api'', ''graphql'', ''-f'', ''query='' @ owner_cats_query] \<and>
   snd (runGet env_team100 \<lparr>get_Login = ''/cats''\<rparr> []) ! 0 =
     Gh [''api'', ''graphql'', ''-f'', ''query='' @ owner_cats_query]"
proof -
  have n: "CHR ''/'' \<notin> set ''octo''" "CHR ''/'' \<notin> set ''cats''" "CHR ''/'' \<notin> set []"
    by simp_all
  have o: "octo_cats_query =
          ''query {'' @ [CHR 0x0A] @ ''      organization(login:'' @ [CHR 0x22]
          @ (if ''octo'' = [] then ''{owner}'' else ''octo'') @ [CHR 0x22] @ '') {''
          @ [CHR 0x0A] @ ''        team(slug:'' @ [CHR 0x22] @ ''cats'' @ [CHR 0x22] @ '') {''
          @ [CHR 0x0A] @ ''          memberStatuses(first: 100) {'' @ [CHR 0x0A]
          @ ''            nodes { indicatesLimitedAvailability message emoji user { login } }''
          @ [CHR 0x0A] @ ''          }'' @ [CHR 0x0A] @ ''        }'' @ [CHR 0x0A]
          @ ''      }'' @ [CHR 0x0A] @ ''    }''"
    by (simp add: octo_cats_query_def)
  have w: "owner_cats_query =
          ''query {'' @ [CHR 0x0A] @ ''      organization(login:'' @ [CHR 0x22]
          @ (if ([]::string) = [] then ''{owner}'' else []) @ [CHR 0x22] @ '') {''
          @ [CHR 0x0A] @ ''        team(slug:'' @ [CHR 0x22] @ ''cats'' @ [CHR 0x22] @ '') {''
          @ [CHR 0x0A] @ ''          memberStatuses(first: 100) {'' @ [CHR 0x0A]
          @ ''            nodes { indicatesLimitedAvailability message emoji user { login } }''
          @ [CHR 0x0A] @ ''          }'' @ [CHR 0x0A] @ ''        }'' @ [CHR 0x0A]
          @ ''      }'' @ [CHR 0x0A] @ ''    }''"
    by (simp add: owner_cats_query_def)
  note a = team_first_two_segments [OF n(1) n(2) o, of env_team100 "''and/more''" "[]"]
  note b = team_first_two_segments [OF n(3) n(2) w, of env_team100 "''more''" "[]"]
  have a1: "runGet env_team100 \<lparr>get_Login = ''octo/cats/and/more''\<rparr> [] =
     runGet env_team100 \<lparr>get_Login = ''octo/cats''\<rparr> []"
    using a [THEN conjunct1] by simp
  have a2: "snd (runGet env_team100 \<lparr>get_Login = ''octo/cats/and/more''\<rparr> []) ! 0 =
     Gh [''api'', ''graphql'', ''-f'', ''query='' @ octo_cats_query]"
    using a [THEN conjunct2, THEN conjunct1] by simp
  have b2: "snd (runGet env_team100 \<lparr>get_Login = ''/cats/more''\<rparr> []) ! 0 =
     Gh [''api'', ''graphql'', ''-f'', ''query='' @ owner_cats_query]"
    using b [THEN conjunct2, THEN conjunct1] by simp
  have b3: "snd (runGet env_team100 \<lparr>get_Login = ''/cats''\<rparr> []) ! 0 =
     Gh [''api'', ''graphql'', ''-f'', ''query='' @ owner_cats_query]"
    using b [THEN conjunct2, THEN conjunct2] by simp
  from a1 a2 b2 b3 show ?thesis by (intro conjI)
qed

end
